theory Spec2Isabelle
  imports Complex_Main "HOL-Library.Multiset"
begin

section \<open>JSON values and JavaScript objects\<close>

text \<open>
  The values \<^verbatim>\<open>JSON.parse\<close> produces.  A JavaScript number is a double; only the
  integer-valued numbers of magnitude below \<open>10^21\<close> are modelled, the ones that
  \<^verbatim>\<open>JSON.stringify\<close> prints as plain decimal numerals.  An object is the list of its own
  properties in the order \<^verbatim>\<open>Object.keys\<close> enumerates them.
\<close>

datatype json =
    JNull
  | JBool bool
  | JNum int
  | JStr string
  | JArr "json list"
  | JObj "(string \<times> json) list"

type_synonym 'a jsobj = "(string \<times> 'a) list"

subsection \<open>Decimal numerals\<close>

definition digitChars :: string where
  "digitChars = ''0123456789''"

definition digitChar :: "nat \<Rightarrow> char" where
  "digitChar d = digitChars ! (d mod 10)"

fun natToString :: "nat \<Rightarrow> string" where
  "natToString n = (if n < 10 then [digitChar n] else natToString (n div 10) @ [digitChar n])"

declare natToString.simps [simp del]

definition intToString :: "int \<Rightarrow> string" where
  "intToString i = (if i < 0 then CHR ''-'' # natToString (nat (- i)) else natToString (nat i))"

definition digitTable :: "(char \<times> int) list" where
  "digitTable =
     [(CHR ''0'', 0), (CHR ''1'', 1), (CHR ''2'', 2), (CHR ''3'', 3), (CHR ''4'', 4),
      (CHR ''5'', 5), (CHR ''6'', 6), (CHR ''7'', 7), (CHR ''8'', 8), (CHR ''9'', 9)]"

definition digitValue :: "char \<Rightarrow> int option" where
  "digitValue c = map_of digitTable c"

fun digitsValue :: "int \<Rightarrow> string \<Rightarrow> int option" where
  "digitsValue acc [] = Some acc"
| "digitsValue acc (c # cs) =
     (case digitValue c of None \<Rightarrow> None | Some d \<Rightarrow> digitsValue (acc * 10 + d) cs)"

text \<open>
  A property key is an \<^emph>\<open>array index\<close> when it is the canonical decimal numeral of an
  integer in \<open>0 .. 2^32 - 2\<close>.  Own properties are enumerated with the array indices
  first, in ascending numeric order, and the other string keys after them in the order of
  their creation.
\<close>

definition arrayIndex :: "string \<Rightarrow> int option" where
  "arrayIndex k =
     (if k = [] then None
      else if hd k = CHR ''0'' \<and> tl k \<noteq> [] then None
      else (case digitsValue 0 k of
              None \<Rightarrow> None
            | Some n \<Rightarrow> if n < 4294967295 then Some n else None))"

subsection \<open>Own properties in enumeration order\<close>

definition obj_get :: "'a jsobj \<Rightarrow> string \<Rightarrow> 'a option" where
  "obj_get obj k = map_of obj k"

definition obj_keys :: "'a jsobj \<Rightarrow> string list" where
  "obj_keys obj = map fst obj"

definition obj_values :: "'a jsobj \<Rightarrow> 'a list" where
  "obj_values obj = map snd obj"

text \<open>Overwriting an existing property keeps its place.\<close>

fun obj_update :: "string \<Rightarrow> 'a \<Rightarrow> 'a jsobj \<Rightarrow> 'a jsobj" where
  "obj_update k v [] = []"
| "obj_update k v ((k', v') # rest) =
     (if k' = k then (k, v) # rest else (k', v') # obj_update k v rest)"

text \<open>A new array-index key goes before the first key that is not a smaller array index.\<close>

fun obj_insert_index :: "int \<Rightarrow> string \<Rightarrow> 'a \<Rightarrow> 'a jsobj \<Rightarrow> 'a jsobj" where
  "obj_insert_index n k v [] = [(k, v)]"
| "obj_insert_index n k v ((k', v') # rest) =
     (case arrayIndex k' of
        Some m \<Rightarrow> if m < n then (k', v') # obj_insert_index n k v rest
                  else (k, v) # (k', v') # rest
      | None \<Rightarrow> (k, v) # (k', v') # rest)"

definition obj_set :: "string \<Rightarrow> 'a \<Rightarrow> 'a jsobj \<Rightarrow> 'a jsobj" where
  "obj_set k v obj =
     (if k \<in> set (obj_keys obj) then obj_update k v obj
      else (case arrayIndex k of
              Some n \<Rightarrow> obj_insert_index n k v obj
            | None \<Rightarrow> obj @ [(k, v)]))"

subsection \<open>\<^verbatim>\<open>JSON.stringify\<close> without indentation\<close>

definition hexChars :: string where
  "hexChars = ''0123456789abcdef''"

definition controlEscape :: "char \<Rightarrow> string" where
  "controlEscape c =
     (if c = CHR 0x08 then [CHR 0x5C, CHR ''b''] else if c = CHR 0x09 then [CHR 0x5C, CHR ''t'']
      else if c = CHR 0x0A then [CHR 0x5C, CHR ''n''] else if c = CHR 0x0C then [CHR 0x5C, CHR ''f'']
      else if c = CHR 0x0D then [CHR 0x5C, CHR ''r'']
      else [CHR 0x5C] @ ''u00'' @
           [hexChars ! ((of_char c :: nat) div 16), hexChars ! ((of_char c :: nat) mod 16)])"

definition escapeChar :: "char \<Rightarrow> string" where
  "escapeChar c =
     (if c = CHR 0x22 then [CHR 0x5C, CHR 0x22]
      else if c = CHR 0x5C then [CHR 0x5C, CHR 0x5C]
      else if (of_char c :: nat) < 32 then controlEscape c
      else [c])"

definition quoteString :: "string \<Rightarrow> string" where
  "quoteString s = [CHR 0x22] @ concat (map escapeChar s) @ [CHR 0x22]"

fun joinWith :: "string \<Rightarrow> string list \<Rightarrow> string" where
  "joinWith sep [] = []"
| "joinWith sep [x] = x"
| "joinWith sep (x # y # ys) = x @ sep @ joinWith sep (y # ys)"

fun stringify :: "json \<Rightarrow> string" where
  "stringify JNull = ''null''"
| "stringify (JBool b) = (if b then ''true'' else ''false'')"
| "stringify (JNum n) = intToString n"
| "stringify (JStr s) = quoteString s"
| "stringify (JArr xs) = ''['' @ joinWith '','' (map stringify xs) @ '']''"
| "stringify (JObj kvs) =
     ''{'' @ joinWith '','' (map (\<lambda>kv. quoteString (fst kv) @ '':'' @ stringify (snd kv)) kvs) @ ''}''"


text \<open>\<^verbatim>\<open>JSON.stringify(v, null, 2)\<close>: one member per line, two blanks per level.\<close>

fun stringifyIndent :: "nat \<Rightarrow> json \<Rightarrow> string" where
  "stringifyIndent lvl (JArr xs) =
     (if xs = [] then ''[]''
      else ''['' @ [CHR 0x0A] @
           joinWith ('','' @ [CHR 0x0A])
             (map (\<lambda>x. replicate (2 * Suc lvl) CHR '' '' @ stringifyIndent (Suc lvl) x) xs) @
           [CHR 0x0A] @ replicate (2 * lvl) CHR '' '' @ '']'')"
| "stringifyIndent lvl (JObj kvs) =
     (if kvs = [] then ''{}''
      else ''{'' @ [CHR 0x0A] @
           joinWith ('','' @ [CHR 0x0A])
             (map (\<lambda>kv. replicate (2 * Suc lvl) CHR '' '' @ quoteString (fst kv) @ '': '' @
                         stringifyIndent (Suc lvl) (snd kv)) kvs) @
           [CHR 0x0A] @ replicate (2 * lvl) CHR '' '' @ ''}'')"
| "stringifyIndent lvl v = stringify v"

subsection \<open>Property access on parsed values\<close>

definition truthy :: "json \<Rightarrow> bool" where
  "truthy v = (case v of
       JNull \<Rightarrow> False
     | JBool b \<Rightarrow> b
     | JNum n \<Rightarrow> n \<noteq> 0
     | JStr s \<Rightarrow> s \<noteq> []
     | JArr xs \<Rightarrow> True
     | JObj kvs \<Rightarrow> True)"

definition isArray :: "json \<Rightarrow> bool" where
  "isArray v = (case v of JArr xs \<Rightarrow> True | _ \<Rightarrow> False)"

definition indexKeys :: "nat \<Rightarrow> string list" where
  "indexKeys n = map natToString [0..<n]"

definition Object_keys :: "json \<Rightarrow> string list" where
  "Object_keys v = (case v of
       JObj kvs \<Rightarrow> obj_keys kvs
     | JArr xs \<Rightarrow> indexKeys (length xs)
     | JStr s \<Rightarrow> indexKeys (length s)
     | _ \<Rightarrow> [])"

text \<open>
  \<^verbatim>\<open>v[k]\<close> for the own properties of a parsed value: the members of an object, the elements
  and the \<^verbatim>\<open>length\<close> of an array, the characters and the \<^verbatim>\<open>length\<close> of a string; \<open>None\<close> is
  \<^verbatim>\<open>undefined\<close>.  What a value inherits from its prototype (\<^verbatim>\<open>toString\<close>, and for an array
  \<^verbatim>\<open>map\<close>, \<^verbatim>\<open>values\<close> and the like) is a function, not a JSON value, and is not modelled.
\<close>

definition getProp :: "json \<Rightarrow> string \<Rightarrow> json option" where
  "getProp v k = (case v of
       JObj kvs \<Rightarrow> obj_get kvs k
     | JArr xs \<Rightarrow>
         if k = ''length'' then Some (JNum (int (length xs)))
         else map_of (zip (indexKeys (length xs)) xs) k
     | JStr s \<Rightarrow>
         if k = ''length'' then Some (JNum (int (length s)))
         else map_of (zip (indexKeys (length s)) (map (\<lambda>c. JStr [c]) s)) k
     | _ \<Rightarrow> None)"

section \<open>Consensus synthesis over JSON responses\<close>

text \<open>
  \<^verbatim>\<open>synthesizeJsonConsensus\<close> of the consensus service.  \<^verbatim>\<open>JSON.parse\<close> is a parameter
  \<open>JSON_parse\<close> (\<open>None\<close> when it throws).  \<^verbatim>\<open>Object.prototype\<close> is taken as the engine
  provides it, with nothing added to it.
\<close>

record response =
  provider :: string
  model :: string
  content :: string

record vote =
  count :: nat
  voteValue :: json
  sources :: "string list"

type_synonym fieldVotes = "vote jsobj jsobj"

datatype js_error = TypeError | Error string

datatype consensus = Single | MultiProvider | Fallback | Validated

record consensusResult =
  resContent :: string
  resParsed :: "json jsobj option"
  resProviders :: "string list"
  resModels :: "string list"
  resConsensus :: consensus

fun indexOfChar :: "string \<Rightarrow> char \<Rightarrow> nat option" where
  "indexOfChar [] c = None"
| "indexOfChar (x # xs) c = (if x = c then Some 0 else map_option Suc (indexOfChar xs c))"

fun lastIndexOfChar :: "string \<Rightarrow> char \<Rightarrow> nat option" where
  "lastIndexOfChar [] c = None"
| "lastIndexOfChar (x # xs) c =
     (case lastIndexOfChar xs c of
        Some i \<Rightarrow> Some (Suc i)
      | None \<Rightarrow> if x = c then Some 0 else None)"

definition slice :: "string \<Rightarrow> nat \<Rightarrow> nat \<Rightarrow> string" where
  "slice s b e = take (e - b) (drop b s)"

definition parseContent :: "(string \<Rightarrow> json option) \<Rightarrow> string \<Rightarrow> json option" where
  "parseContent JSON_parse c =
     (case indexOfChar c CHR ''{'' of
        None \<Rightarrow> JSON_parse c
      | Some start \<Rightarrow>
          (case lastIndexOfChar c CHR ''}'' of
             None \<Rightarrow> JSON_parse c
           | Some end \<Rightarrow> JSON_parse (slice c start (end + 1))))"

definition parseResponses :: "(string \<Rightarrow> json option) \<Rightarrow> response list \<Rightarrow> json list" where
  "parseResponses JSON_parse responses =
     filter truthy
       (map (\<lambda>r. case parseContent JSON_parse (content r) of None \<Rightarrow> JNull | Some v \<Rightarrow> v)
          responses)"

text \<open>The names every plain object inherits from \<^verbatim>\<open>Object.prototype\<close>.\<close>

definition objectPrototypeNames :: "string list" where
  "objectPrototypeNames =
     [''constructor'', ''__defineGetter__'', ''__defineSetter__'', ''hasOwnProperty'',
      ''__lookupGetter__'', ''__lookupSetter__'', ''isPrototypeOf'', ''propertyIsEnumerable'',
      ''toString'', ''valueOf'', ''__proto__'', ''toLocaleString'']"

text \<open>
  One pass of the inner \<^verbatim>\<open>forEach\<close>: the vote of one response for one key.  For a key that
  names a member of \<^verbatim>\<open>Object.prototype\<close> and is no own property of the table,
  \<^verbatim>\<open>fieldVotes[key]\<close> is the inherited member: no entry is made, the vote is written into the
  member itself, and the table stays as it is.  For the key \<^verbatim>\<open>__proto__\<close> that member is
  \<^verbatim>\<open>Object.prototype\<close>, and the vote becomes a property that every object inherits from then
  on; this after-effect is not modelled, and the statements about the synthesis leave out
  responses that have a key \<^verbatim>\<open>__proto__\<close>.
\<close>

definition castVote :: "string \<Rightarrow> json \<Rightarrow> string \<Rightarrow> fieldVotes \<Rightarrow> fieldVotes" where
  "castVote src obj key fv =
     (case getProp obj key of
        None \<Rightarrow> fv
      | Some v \<Rightarrow>
          if key \<notin> set (obj_keys fv) \<and> key \<in> set objectPrototypeNames then fv
          else
            (let valueStr = stringify v;
                 inner = (case obj_get fv key of None \<Rightarrow> [] | Some i \<Rightarrow> i);
                 e = (case obj_get inner valueStr of
                        None \<Rightarrow> \<lparr>count = 0, voteValue = v, sources = []\<rparr>
                      | Some e \<Rightarrow> e)
             in obj_set key
                  (obj_set valueStr (e\<lparr>count := Suc (count e), sources := sources e @ [src]\<rparr>) inner)
                  fv))"

text \<open>
  The outer \<^verbatim>\<open>forEach\<close> with its index: \<^verbatim>\<open>responses[idx].provider\<close> is read once for
  every key, and throws when there is no such response.
\<close>

fun countVotes :: "response list \<Rightarrow> nat \<Rightarrow> json list \<Rightarrow> fieldVotes \<Rightarrow> js_error + fieldVotes" where
  "countVotes responses idx [] fv = Inr fv"
| "countVotes responses idx (obj # rest) fv =
     (if Object_keys obj = [] then countVotes responses (Suc idx) rest fv
      else if idx < length responses
      then countVotes responses (Suc idx) rest
             (fold (castVote (provider (responses ! idx)) obj) (Object_keys obj) fv)
      else Inl TypeError)"

definition sortVotes :: "vote list \<Rightarrow> vote list" where
  "sortVotes votes = sort_key (\<lambda>v. - int (count v)) votes"

definition selectField :: "json list \<Rightarrow> fieldVotes \<Rightarrow> string \<Rightarrow> json jsobj \<Rightarrow> js_error + json jsobj" where
  "selectField parsed fv key merged =
     (case sortVotes (obj_values (case obj_get fv key of None \<Rightarrow> [] | Some i \<Rightarrow> i)) of
        [] \<Rightarrow> Inl TypeError
      | best # others \<Rightarrow>
          if 2 \<le> count best \<or> length parsed = 1 then Inr (obj_set key (voteValue best) merged)
          else (case parsed of
                  [] \<Rightarrow> Inl TypeError
                | first # lower \<Rightarrow>
                    (case getProp first key of
                       None \<Rightarrow> Inr merged
                     | Some v \<Rightarrow> Inr (obj_set key v merged))))"

fun selectFields :: "json list \<Rightarrow> fieldVotes \<Rightarrow> string list \<Rightarrow> json jsobj \<Rightarrow> js_error + json jsobj" where
  "selectFields parsed fv [] merged = Inr merged"
| "selectFields parsed fv (key # keys) merged =
     (case selectField parsed fv key merged of
        Inl e \<Rightarrow> Inl e
      | Inr merged' \<Rightarrow> selectFields parsed fv keys merged')"

definition itemStr :: "json \<Rightarrow> string" where
  "itemStr item = (case item of JStr s \<Rightarrow> s | _ \<Rightarrow> stringify item)"

fun uniqueItems :: "string list \<Rightarrow> json list \<Rightarrow> json list" where
  "uniqueItems seen [] = []"
| "uniqueItems seen (item # items) =
     (if itemStr item \<in> set seen then uniqueItems seen items
      else item # uniqueItems (itemStr item # seen) items)"

definition arrayItems :: "json \<Rightarrow> json list" where
  "arrayItems v = (case v of JArr xs \<Rightarrow> xs | _ \<Rightarrow> [])"

definition allItems :: "json list \<Rightarrow> string \<Rightarrow> json list" where
  "allItems parsed key =
     concat (map arrayItems
       (filter isArray (concat (map (\<lambda>p. case getProp p key of None \<Rightarrow> [] | Some v \<Rightarrow> [v]) parsed))))"

definition mergeArrayField :: "json list \<Rightarrow> string \<Rightarrow> json jsobj \<Rightarrow> json jsobj" where
  "mergeArrayField parsed key merged =
     (case obj_get merged key of
        Some (JArr xs) \<Rightarrow> obj_set key (JArr (uniqueItems [] (allItems parsed key))) merged
      | _ \<Rightarrow> merged)"

definition mergeArrays :: "json list \<Rightarrow> json jsobj \<Rightarrow> json jsobj" where
  "mergeArrays parsed merged = fold (mergeArrayField parsed) (obj_keys merged) merged"

definition mergeParsed :: "response list \<Rightarrow> json list \<Rightarrow> js_error + json jsobj" where
  "mergeParsed responses parsed =
     (case countVotes responses 0 parsed [] of
        Inl e \<Rightarrow> Inl e
      | Inr fv \<Rightarrow>
          (case selectFields parsed fv (obj_keys fv) [] of
             Inl e \<Rightarrow> Inl e
           | Inr merged \<Rightarrow> Inr (mergeArrays parsed merged)))"

definition synthesizeJsonConsensus ::
  "(string \<Rightarrow> json option) \<Rightarrow> response list \<Rightarrow> js_error + consensusResult" where
  "synthesizeJsonConsensus JSON_parse responses =
     (let parsed = parseResponses JSON_parse responses in
      if parsed = [] then
        (case responses of
           [] \<Rightarrow> Inl TypeError
         | r # rs \<Rightarrow> Inr \<lparr>resContent = content r, resParsed = None,
                        resProviders = map provider responses, resModels = map model responses,
                        resConsensus = Fallback\<rparr>)
      else
        (case mergeParsed responses parsed of
           Inl e \<Rightarrow> Inl e
         | Inr merged \<Rightarrow> Inr \<lparr>resContent = stringifyIndent 0 (JObj merged), resParsed = Some merged,
                        resProviders = map provider responses, resModels = map model responses,
                        resConsensus = (if 1 < length parsed then MultiProvider else Single)\<rparr>))"


subsection \<open>Notions used to state the voting rule\<close>

text \<open>The number of parsed responses that carry \<open>key\<close> with a value serialised as \<open>s\<close>.\<close>

definition agreeing :: "json list \<Rightarrow> string \<Rightarrow> string \<Rightarrow> nat" where
  "agreeing parsed key s =
     length (filter (\<lambda>p. key \<in> set (Object_keys p) \<and>
                          map_option stringify (getProp p key) = Some s) parsed)"

definition votesOf :: "fieldVotes \<Rightarrow> string \<Rightarrow> string \<Rightarrow> nat" where
  "votesOf fv key s =
     (case obj_get fv key of
        None \<Rightarrow> 0
      | Some inner \<Rightarrow> (case obj_get inner s of None \<Rightarrow> 0 | Some e \<Rightarrow> count e))"

definition votesInv :: "fieldVotes \<Rightarrow> bool" where
  "votesInv fv \<longleftrightarrow>
     distinct (obj_keys fv) \<and> set (obj_keys fv) \<inter> set objectPrototypeNames = {} \<and>
     (\<forall>key inner. obj_get fv key = Some inner \<longrightarrow>
        inner \<noteq> [] \<and> distinct (obj_keys inner) \<and>
        (\<forall>s e. obj_get inner s = Some e \<longrightarrow> 1 \<le> count e))"

text \<open>No parsed response has a key named \<^verbatim>\<open>__proto__\<close>.\<close>

definition noProtoKey :: "json list \<Rightarrow> bool" where
  "noProtoKey parsed \<longleftrightarrow> (\<forall>p\<in>set parsed. ''__proto__'' \<notin> set (Object_keys p))"

definition isObject :: "json \<Rightarrow> bool" where
  "isObject v = (case v of JObj kvs \<Rightarrow> True | _ \<Rightarrow> False)"

subsection \<open>Notions used to state the majority rule and the union of sequences\<close>

text \<open>Some parsed response has \<open>key\<close> with the value \<open>v\<close>.\<close>

definition carried :: "json list \<Rightarrow> string \<Rightarrow> json \<Rightarrow> bool" where
  "carried parsed key v \<longleftrightarrow>
     (\<exists>p\<in>set parsed. key \<in> set (Object_keys p) \<and> getProp p key = Some v)"

text \<open>
  Following the spec's words, the items of a sequence without repetition, in first-seen
  order; two items count as the same when \<open>f\<close> gives the same for both.
\<close>

function firstSeen :: "('a \<Rightarrow> 'b) \<Rightarrow> 'a list \<Rightarrow> 'a list" where
  "firstSeen f [] = []"
| "firstSeen f (x # xs) = x # firstSeen f (filter (\<lambda>y. f y \<noteq> f x) xs)"
  by pat_completeness auto
termination
  by (relation "measure (\<lambda>(f, xs). length xs)") (auto simp: less_Suc_eq_le)

text \<open>Every vote of the table holds a value some response carries under that key, filed
  under its serialisation.\<close>

definition valuesInv :: "json list \<Rightarrow> fieldVotes \<Rightarrow> bool" where
  "valuesInv parsed fv \<longleftrightarrow>
     (\<forall>key inner s e. obj_get fv key = Some inner \<longrightarrow> obj_get inner s = Some e \<longrightarrow>
        stringify (voteValue e) = s \<and> carried parsed key (voteValue e))"

text \<open>What the selection loop stores under a key of the vote table; \<open>None\<close> when it stores
  nothing.\<close>

definition selected :: "json list \<Rightarrow> fieldVotes \<Rightarrow> string \<Rightarrow> json option" where
  "selected parsed fv key =
     (case sortVotes (obj_values (case obj_get fv key of None \<Rightarrow> [] | Some i \<Rightarrow> i)) of
        [] \<Rightarrow> None
      | best # others \<Rightarrow>
          if 2 \<le> count best \<or> length parsed = 1 then Some (voteValue best)
          else getProp (hd parsed) key)"

text \<open>What the last loop makes of a selected value: a sequence is replaced by the union.\<close>

definition unionIfArray :: "json list \<Rightarrow> string \<Rightarrow> json \<Rightarrow> json" where
  "unionIfArray parsed key v =
     (if isArray v then JArr (uniqueItems [] (allItems parsed key)) else v)"

section \<open>Strings as the provider layer uses them\<close>

text \<open>
  Strings are lists of characters; texts are taken to be ASCII, so that one \<^typ>\<open>char\<close> is one
  UTF-16 code unit and \<^verbatim>\<open>trim\<close>, \<^verbatim>\<open>toLowerCase\<close> and the classes \<^verbatim>\<open>\s\<close>, \<^verbatim>\<open>\d\<close>, \<^verbatim>\<open>\w\<close> only
  meet ASCII characters.
\<close>

definition whitespaceChars :: string where
  "whitespaceChars = [CHR '' '', CHR 0x09, CHR 0x0A, CHR 0x0B, CHR 0x0C, CHR 0x0D]"

definition isSpace :: "char \<Rightarrow> bool" where
  "isSpace c \<longleftrightarrow> c \<in> set whitespaceChars"

definition trimStart :: "string \<Rightarrow> string" where
  "trimStart s = dropWhile isSpace s"

definition trimEnd :: "string \<Rightarrow> string" where
  "trimEnd s = rev (dropWhile isSpace (rev s))"

definition trim :: "string \<Rightarrow> string" where
  "trim s = trimEnd (trimStart s)"

definition startsWith :: "string \<Rightarrow> string \<Rightarrow> bool" where
  "startsWith s p \<longleftrightarrow> take (length p) s = p"

fun str_includes :: "string \<Rightarrow> string \<Rightarrow> bool" where
  "str_includes [] sub = (sub = [])"
| "str_includes (c # cs) sub = (startsWith (c # cs) sub \<or> str_includes cs sub)"

definition substring0 :: "string \<Rightarrow> nat \<Rightarrow> string" where
  "substring0 s n = take n s"

section \<open>Provider registry\<close>

type_synonym env = "string \<Rightarrow> string option"

definition PROVIDERS_GEMINI :: string where "PROVIDERS_GEMINI = ''gemini''"
definition PROVIDERS_GROQ :: string where "PROVIDERS_GROQ = ''groq''"
definition PROVIDERS_HUGGINGFACE :: string where "PROVIDERS_HUGGINGFACE = ''huggingface''"
definition PROVIDERS_OPENAI :: string where "PROVIDERS_OPENAI = ''openai''"
definition PROVIDERS_OPENROUTER :: string where "PROVIDERS_OPENROUTER = ''openrouter''"
definition PROVIDERS_PERPLEXITY :: string where "PROVIDERS_PERPLEXITY = ''perplexity''"

text \<open>\<^verbatim>\<open>process.env.X\<close> as a condition: set and not the empty string.\<close>

definition envTruthy :: "env \<Rightarrow> string \<Rightarrow> bool" where
  "envTruthy e k = (case e k of None \<Rightarrow> False | Some v \<Rightarrow> v \<noteq> [])"

text \<open>\<^verbatim>\<open>process.env.X || d\<close>.\<close>

definition envOr :: "env \<Rightarrow> string \<Rightarrow> string \<Rightarrow> string" where
  "envOr e k d = (case e k of None \<Rightarrow> d | Some v \<Rightarrow> if v = [] then d else v)"

definition configured :: "env \<Rightarrow> string \<Rightarrow> string \<Rightarrow> bool" where
  "configured e k placeholder \<longleftrightarrow> envTruthy e k \<and> e k \<noteq> Some placeholder"

datatype client =
    OpenRouterKey string
  | GeminiSdk string
  | GroqSdk string
  | OpenAISdk string

record providerDesc =
  name :: string
  pmodel :: string
  pclient :: "client option"
  apiKey :: "string option"

definition getOpenRouterClient :: "env \<Rightarrow> string \<Rightarrow> client option" where
  "getOpenRouterClient e modelType =
     (let primaryKey = e ''GEMINI_API_KEY'';
          secondaryKey = (if envTruthy e ''ANTHROPIC_API_KEY'' then e ''ANTHROPIC_API_KEY''
                          else e ''OPENROUTER_API_KEY'');
          perplexityKey = e ''PERPLEXITY_API_KEY'';
          usable = (\<lambda>k. case k of None \<Rightarrow> False | Some v \<Rightarrow> v \<noteq> [] \<and> startsWith v ''sk-or-v1-'')
      in if modelType = ''perplexity'' \<and> usable perplexityKey
           then map_option (\<lambda>v. OpenRouterKey (trim v)) perplexityKey
         else if modelType = ''gemini'' \<and> usable primaryKey
           then map_option (\<lambda>v. OpenRouterKey (trim v)) primaryKey
         else if modelType = ''anthropic'' \<and> usable secondaryKey
           then map_option (\<lambda>v. OpenRouterKey (trim v)) secondaryKey
         else if usable primaryKey
           then map_option (\<lambda>v. OpenRouterKey (trim v)) primaryKey
         else None)"

definition getGeminiClient :: "env \<Rightarrow> client option" where
  "getGeminiClient e =
     (case e ''GEMINI_API_KEY'' of
        None \<Rightarrow> None
      | Some k \<Rightarrow>
          if k = [] \<or> k = ''your_gemini_api_key_here'' \<or> trim k = [] then None
          else if startsWith (trim k) ''sk-or-v1-'' then Some (OpenRouterKey (trim k))
          else Some (GeminiSdk (trim k)))"

definition getGroqClient :: "env \<Rightarrow> client option" where
  "getGroqClient e =
     (case e ''GROQ_API_KEY'' of
        None \<Rightarrow> None
      | Some k \<Rightarrow>
          if k = [] \<or> k = ''your_groq_api_key_here'' \<or> trim k = [] then None
          else Some (GroqSdk (trim k)))"

definition getOpenAIClient :: "env \<Rightarrow> client option" where
  "getOpenAIClient e =
     (case e ''OPENAI_API_KEY'' of
        None \<Rightarrow> None
      | Some k \<Rightarrow> if k = [] \<or> k = ''your_openai_api_key_here'' then None else Some (OpenAISdk k))"

definition isOpenRouterClient :: "client \<Rightarrow> bool" where
  "isOpenRouterClient c = (case c of OpenRouterKey k \<Rightarrow> True | _ \<Rightarrow> False)"

definition clientKey :: "client \<Rightarrow> string" where
  "clientKey c = (case c of OpenRouterKey k \<Rightarrow> k | GeminiSdk k \<Rightarrow> k | GroqSdk k \<Rightarrow> k | OpenAISdk k \<Rightarrow> k)"

definition geminiEntry :: "env \<Rightarrow> providerDesc list" where
  "geminiEntry e =
     (if configured e ''GEMINI_API_KEY'' ''your_gemini_api_key_here'' then
        (case getGeminiClient e of
           None \<Rightarrow> []
         | Some c \<Rightarrow>
             [\<lparr>name = (if isOpenRouterClient c then PROVIDERS_OPENROUTER else PROVIDERS_GEMINI),
               pmodel = (if isOpenRouterClient c
                         then envOr e ''GEMINI_MODEL'' ''google/gemini-2.0-flash-exp''
                         else envOr e ''GEMINI_MODEL'' ''gemini-2.0-flash-exp''),
               pclient = Some c,
               apiKey = (if isOpenRouterClient c then Some (clientKey c) else None)\<rparr>])
      else [])"

definition groqEntry :: "env \<Rightarrow> providerDesc list" where
  "groqEntry e =
     (if configured e ''GROQ_API_KEY'' ''your_groq_api_key_here'' then
        [\<lparr>name = PROVIDERS_GROQ, pmodel = envOr e ''GROQ_MODEL'' ''llama-3.3-70b-versatile'',
          pclient = getGroqClient e, apiKey = None\<rparr>]
      else [])"

definition huggingFaceEntry :: "env \<Rightarrow> providerDesc list" where
  "huggingFaceEntry e =
     (if configured e ''HUGGINGFACE_API_KEY'' ''your_huggingface_api_key_here'' then
        [\<lparr>name = PROVIDERS_HUGGINGFACE,
          pmodel = envOr e ''HUGGINGFACE_MODEL'' ''mistralai/Mistral-7B-Instruct-v0.2'',
          pclient = None, apiKey = None\<rparr>]
      else [])"

definition openAIEntry :: "env \<Rightarrow> providerDesc list" where
  "openAIEntry e =
     (if configured e ''OPENAI_API_KEY'' ''your_openai_api_key_here'' then
        [\<lparr>name = PROVIDERS_OPENAI, pmodel = envOr e ''OPENAI_MODEL'' ''gpt-4o-mini'',
          pclient = getOpenAIClient e, apiKey = None\<rparr>]
      else [])"

definition perplexityEntry :: "env \<Rightarrow> providerDesc list" where
  "perplexityEntry e =
     (case e ''PERPLEXITY_API_KEY'' of
        None \<Rightarrow> []
      | Some perplexityKey \<Rightarrow>
          if perplexityKey \<noteq> [] \<and> perplexityKey \<noteq> ''your_perplexity_api_key_here'' then
            (if startsWith perplexityKey ''sk-or-v1-'' then
               (case getOpenRouterClient e ''perplexity'' of
                  None \<Rightarrow> []
                | Some c \<Rightarrow>
                    [\<lparr>name = PROVIDERS_OPENROUTER,
                      pmodel = envOr e ''PERPLEXITY_MODEL''
                                 ''perplexity/llama-3.1-sonar-large-32k-online'',
                      pclient = Some c, apiKey = Some (clientKey c)\<rparr>])
             else
               [\<lparr>name = PROVIDERS_PERPLEXITY,
                 pmodel = envOr e ''PERPLEXITY_MODEL'' ''llama-3.1-sonar-large-32k-online'',
                 pclient = None, apiKey = None\<rparr>])
          else [])"

text \<open>The providers in their fixed default priority.\<close>

definition defaultProviders :: "env \<Rightarrow> providerDesc list" where
  "defaultProviders e =
     geminiEntry e @ groqEntry e @ huggingFaceEntry e @ openAIEntry e @ perplexityEntry e"

definition MAX_SAFE_INTEGER :: int where
  "MAX_SAFE_INTEGER = 9007199254740991"

text \<open>\<^verbatim>\<open>new Map(preferredOrder.map((name, index) => [name, index]))\<close>: a later entry of the
  same name replaces the earlier one.\<close>

definition orderMap :: "string list \<Rightarrow> string \<Rightarrow> nat option" where
  "orderMap preferredOrder =
     fold (\<lambda>entry m. m(fst entry \<mapsto> snd entry))
       (zip preferredOrder [0..<length preferredOrder]) Map.empty"

definition rankOf :: "string list \<Rightarrow> string \<Rightarrow> int" where
  "rankOf preferredOrder n =
     (case orderMap preferredOrder n of Some i \<Rightarrow> int i | None \<Rightarrow> MAX_SAFE_INTEGER)"

text \<open>\<^verbatim>\<open>Array.prototype.sort\<close> is stable; the comparator is the difference of the ranks.\<close>

definition getAvailableProviders :: "env \<Rightarrow> string list \<Rightarrow> providerDesc list" where
  "getAvailableProviders e preferredOrder =
     (let providers = defaultProviders e in
      if length preferredOrder = 0 then providers
      else sort_key (\<lambda>p. rankOf preferredOrder (name p)) providers)"

section \<open>Thrown values\<close>

text \<open>
  What a \<^verbatim>\<open>catch (err)\<close> of the provider layer receives: an object whose \<^verbatim>\<open>message\<close> is a
  string or is missing (\<open>None\<close>), together with the text \<^verbatim>\<open>err.toString()\<close> gives.
\<close>

record thrown =
  excMessage :: "string option"
  excString :: string

text \<open>\<^verbatim>\<open>new Error(m)\<close>.\<close>

definition newError :: "string \<Rightarrow> thrown" where
  "newError m = \<lparr>excMessage = Some m, excString = (if m = [] then ''Error'' else ''Error: '' @ m)\<rparr>"

text \<open>\<^verbatim>\<open>err.message?.includes(s)\<close> as a condition.\<close>

definition messageIncludes :: "thrown \<Rightarrow> string \<Rightarrow> bool" where
  "messageIncludes err s = (case excMessage err of None \<Rightarrow> False | Some m \<Rightarrow> str_includes m s)"

text \<open>\<^verbatim>\<open>lastError?.message || 'Unknown error'\<close>.\<close>

definition messageOrUnknown :: "thrown option \<Rightarrow> string" where
  "messageOrUnknown lastError =
     (case lastError of
        None \<Rightarrow> ''Unknown error''
      | Some err \<Rightarrow>
          (case excMessage err of
             None \<Rightarrow> ''Unknown error''
           | Some m \<Rightarrow> if m = [] then ''Unknown error'' else m))"

text \<open>\<^verbatim>\<open>err.message || err.toString()\<close>.\<close>

definition messageOrString :: "thrown \<Rightarrow> string" where
  "messageOrString err =
     (case excMessage err of
        None \<Rightarrow> excString err
      | Some m \<Rightarrow> if m = [] then excString err else m)"

section \<open>Fallback orchestration\<close>

text \<open>
  \<^verbatim>\<open>generateAIResponse\<close>.  The transport is a parameter: \<open>callProvider i n opts\<close> is the
  outcome of the \<open>i\<close>-th call made (counted from 0) when it goes to provider \<open>n\<close> with
  options \<open>opts\<close>, the value thrown (\<open>Inl\<close>) or the text returned.  The model returns the
  calls made, in order, together with the outcome of the function.  The error thrown when
  every provider failed is represented by the text that follows \<^verbatim>\<open>Last error:\<close> in its message.
\<close>

record callOptions =
  temperature :: "real option"
  maxTokens :: "int option"
  optModel :: "string option"

record generateOptions =
  preferredProviders :: "string list"
  genTemperature :: "real option"
  genMaxTokens :: "int option"
  genModel :: "string option"

record aiResponse =
  aiContent :: string
  aiProvider :: string
  aiModel :: string

record errorInfo =
  errProvider :: string
  errError :: string

record attempt =
  attProvider :: string
  attOptions :: callOptions

datatype failure = NoProvidersConfigured | AllProvidersFailed string

definition isRateLimit :: "string \<Rightarrow> bool" where
  "isRateLimit errorMsg \<longleftrightarrow>
     str_includes errorMsg ''429'' \<or> str_includes errorMsg ''Too Many Requests'' \<or>
     str_includes errorMsg ''Quota exceeded'' \<or> str_includes errorMsg ''rate limit''"

definition isAuthError :: "string \<Rightarrow> bool" where
  "isAuthError errorMsg \<longleftrightarrow>
     str_includes errorMsg ''API key'' \<or> str_includes errorMsg ''401'' \<or> str_includes errorMsg ''403'' \<or>
     str_includes errorMsg ''invalid'' \<or> str_includes errorMsg ''Unauthorized'' \<or>
     str_includes errorMsg ''authentication''"

text \<open>\<^verbatim>\<open>model || provider.model\<close>.\<close>

definition actualModel :: "string option \<Rightarrow> providerDesc \<Rightarrow> string" where
  "actualModel m p = (case m of None \<Rightarrow> pmodel p | Some v \<Rightarrow> if v = [] then pmodel p else v)"

definition optionsFor :: "generateOptions \<Rightarrow> providerDesc \<Rightarrow> callOptions" where
  "optionsFor opts p =
     \<lparr>temperature = Some (case genTemperature opts of None \<Rightarrow> 2 / 10 | Some t \<Rightarrow> t),
      maxTokens = Some (case genMaxTokens opts of None \<Rightarrow> 4000 | Some n \<Rightarrow> n),
      optModel = Some (actualModel (genModel opts) p)\<rparr>"

text \<open>The \<^verbatim>\<open>for\<close> loop over the providers; every kind of failure goes on to the next one.\<close>

fun tryProviders ::
  "(nat \<Rightarrow> string \<Rightarrow> callOptions \<Rightarrow> thrown + string) \<Rightarrow> generateOptions \<Rightarrow> nat \<Rightarrow>
   providerDesc list \<Rightarrow> thrown option \<Rightarrow> errorInfo list \<Rightarrow> attempt list \<Rightarrow>
   attempt list \<times> errorInfo list \<times> (failure + aiResponse)" where
  "tryProviders callProvider opts i [] lastError errors calls =
     (calls, errors, Inl (AllProvidersFailed (messageOrUnknown lastError)))"
| "tryProviders callProvider opts i (p # ps) lastError errors calls =
     (let calls' = calls @ [\<lparr>attProvider = name p, attOptions = optionsFor opts p\<rparr>] in
      case callProvider i (name p) (optionsFor opts p) of
        Inr result \<Rightarrow>
          (calls', errors,
           Inr \<lparr>aiContent = result, aiProvider = name p, aiModel = actualModel (genModel opts) p\<rparr>)
      | Inl err \<Rightarrow>
          (let errorMsg = messageOrString err;
               errors' = errors @ [\<lparr>errProvider = name p, errError = substring0 errorMsg 200\<rparr>]
           in if isRateLimit errorMsg
                then tryProviders callProvider opts (Suc i) ps (Some err) errors' calls'
              else if isAuthError errorMsg
                then tryProviders callProvider opts (Suc i) ps (Some err) errors' calls'
              else tryProviders callProvider opts (Suc i) ps (Some err) errors' calls'))"

definition generateAIResponse ::
  "env \<Rightarrow> (nat \<Rightarrow> string \<Rightarrow> callOptions \<Rightarrow> thrown + string) \<Rightarrow> generateOptions \<Rightarrow>
   attempt list \<times> errorInfo list \<times> (failure + aiResponse)" where
  "generateAIResponse e callProvider opts =
     (let providers = getAvailableProviders e (preferredProviders opts) in
      if length providers = 0 then ([], [], Inl NoProvidersConfigured)
      else tryProviders callProvider opts 0 providers None [] [])"

subsection \<open>Notions used to state the fallback property\<close>

definition attemptOf :: "generateOptions \<Rightarrow> providerDesc \<Rightarrow> attempt" where
  "attemptOf opts p = \<lparr>attProvider = name p, attOptions = optionsFor opts p\<rparr>"

text \<open>The outcome of the \<open>j\<close>-th call when it goes to the \<open>j\<close>-th provider of the list.\<close>

definition outcomeAt ::
  "(nat \<Rightarrow> string \<Rightarrow> callOptions \<Rightarrow> thrown + string) \<Rightarrow> generateOptions \<Rightarrow>
   providerDesc list \<Rightarrow> nat \<Rightarrow> thrown + string" where
  "outcomeAt callProvider opts providers j =
     callProvider j (name (providers ! j)) (optionsFor opts (providers ! j))"

subsection \<open>Notions used to state the reordering property\<close>

text \<open>The providers of each name in turn, each group in its original order.\<close>

definition grouped :: "providerDesc list \<Rightarrow> string list \<Rightarrow> providerDesc list" where
  "grouped ps ds = concat (map (\<lambda>n. filter (\<lambda>p. name p = n) ps) ds)"

section \<open>Provider transport adapters\<close>

text \<open>
  The network is a parameter of every adapter: a function from the number of the request
  (counted from 0 within one adapter call) and the request sent to what came back.  A request
  is represented by the fields of its JSON body.  Every adapter returns the requests it has
  sent, in order, together with its outcome: the value thrown (\<open>Inl\<close>) or the text returned.
  Temperatures are real numbers (\<^verbatim>\<open>NaN\<close> and the infinities are not modelled), and an option
  that is \<open>None\<close> is \<^verbatim>\<open>undefined\<close>.
\<close>

record message =
  role :: string
  msgContent :: string

record chatRequest =
  reqModel :: string
  reqMessages :: "message list"
  reqTemperature :: real
  reqMaxTokens :: int

record promptRequest =
  prModel :: string
  prPrompt :: string
  prTemperature :: "real option"
  prMaxTokens :: "int option"

text \<open>
  What reading a 2xx response gives: \<^verbatim>\<open>response.json()\<close> or the walk to the assistant text
  throws, or the text at the vendor's path is there (a string) or not.
\<close>

datatype httpBody = BodyError thrown | BodyContent "string option"

text \<open>
  What reading the error text of a response that is not 2xx gives: the text, or the value
  thrown while reading.  (In \<^verbatim>\<open>callOpenRouter\<close> the body is first read as JSON; when that
  fails the body is used up and \<^verbatim>\<open>response.text()\<close> throws.)
\<close>

datatype errorBody = ErrorText string | ErrorUnreadable thrown

datatype httpOutcome = FetchThrows thrown | Http nat errorBody httpBody

datatype completion = CompletionThrows thrown | Completion "string option"

datatype generation = GenerationThrows thrown | GenerationText string

text \<open>
  The parsed body of a Hugging Face answer: an array whose first element has the given
  \<^verbatim>\<open>generated_text\<close>, an object with the given \<^verbatim>\<open>generated_text\<close>, a string, something else,
  or nothing that can be read (\<^verbatim>\<open>response.json()\<close> throws, or the body is \<^verbatim>\<open>null\<close> and the
  property access throws).
\<close>

datatype hfData =
    HfArray "string option"
  | HfObject "string option"
  | HfString string
  | HfOther
  | HfUnreadable thrown

datatype hfOutcome = HfFetchThrows thrown | HfHttp nat errorBody hfData

definition isOk :: "nat \<Rightarrow> bool" where
  "isOk status \<longleftrightarrow> 200 \<le> status \<and> status \<le> 299"

text \<open>\<^verbatim>\<open>content && content.trim().length > 0\<close>.\<close>

definition hasText :: "string option \<Rightarrow> bool" where
  "hasText c = (case c of None \<Rightarrow> False | Some s \<Rightarrow> s \<noteq> [] \<and> trim s \<noteq> [])"

text \<open>\<^verbatim>\<open>content || '{}'\<close>.\<close>

definition contentOrEmptyObject :: "string option \<Rightarrow> string" where
  "contentOrEmptyObject c = (case c of None \<Rightarrow> ''{}'' | Some s \<Rightarrow> if s = [] then ''{}'' else s)"

definition truthyString :: "string option \<Rightarrow> bool" where
  "truthyString s = (case s of None \<Rightarrow> False | Some v \<Rightarrow> v \<noteq> [])"

definition messageArrayOf :: "string option \<Rightarrow> message list \<Rightarrow> message list" where
  "messageArrayOf systemPrompt messages =
     (if truthyString systemPrompt
      then \<lparr>role = ''system'', msgContent = (case systemPrompt of Some s \<Rightarrow> s | None \<Rightarrow> [])\<rparr> # messages
      else messages)"

text \<open>One more request was sent before the rest of a loop ran.\<close>

definition sentFirst :: "'r \<Rightarrow> 'r list \<times> 'a \<Rightarrow> 'r list \<times> 'a" where
  "sentFirst req rest = (req # fst rest, snd rest)"

subsection \<open>OpenRouter\<close>

definition openRouterBody :: "string \<Rightarrow> message list \<Rightarrow> real \<Rightarrow> int \<Rightarrow> chatRequest" where
  "openRouterBody m messageArray t n =
     \<lparr>reqModel = m, reqMessages = messageArray,
      reqTemperature = max 0 (min 2 t),
      reqMaxTokens = max 1 (min 32000 n)\<rparr>"

definition requestedModelOf :: "env \<Rightarrow> callOptions \<Rightarrow> string" where
  "requestedModelOf e opts =
     (if truthyString (optModel opts) then (case optModel opts of Some m \<Rightarrow> m | None \<Rightarrow> [])
      else envOr e ''GEMINI_MODEL'' ''google/gemini-2.0-flash-exp'')"

text \<open>\<^verbatim>\<open>ANTHROPIC_API_KEY || OPENROUTER_API_KEY || GEMINI_API_KEY\<close>.\<close>

definition sharedKey :: "env \<Rightarrow> string option" where
  "sharedKey e =
     (if envTruthy e ''ANTHROPIC_API_KEY'' then e ''ANTHROPIC_API_KEY''
      else if envTruthy e ''OPENROUTER_API_KEY'' then e ''OPENROUTER_API_KEY''
      else e ''GEMINI_API_KEY'')"

definition openRouterKeyFor :: "env \<Rightarrow> string \<Rightarrow> string option" where
  "openRouterKeyFor e requestedModel =
     (if str_includes requestedModel ''perplexity'' then
        (case e ''PERPLEXITY_API_KEY'' of
           None \<Rightarrow> sharedKey e
         | Some k \<Rightarrow> if k \<noteq> [] \<and> startsWith k ''sk-or-v1-'' then Some k else sharedKey e)
      else if str_includes requestedModel ''anthropic'' \<or> str_includes requestedModel ''claude''
        then sharedKey e
      else e ''GEMINI_API_KEY'')"

definition keySourceFor :: "string \<Rightarrow> string" where
  "keySourceFor requestedModel =
     (if str_includes requestedModel ''perplexity'' then ''PERPLEXITY_API_KEY''
      else if str_includes requestedModel ''anthropic'' \<or> str_includes requestedModel ''claude''
        then ''ANTHROPIC_API_KEY or OPENROUTER_API_KEY''
      else ''GEMINI_API_KEY'')"

definition openRouterFallbackModels :: "string \<Rightarrow> string list" where
  "openRouterFallbackModels m =
     (if str_includes m ''perplexity'' then
        [''perplexity/llama-3.1-sonar-large-32k-online'',
         ''perplexity/llama-3.1-sonar-huge-128k-online'',
         ''perplexity/llama-3.1-sonar-small-32k-online'',
         ''google/gemini-2.0-flash-exp'']
      else if str_includes m ''anthropic'' \<or> str_includes m ''claude'' then
        [''anthropic/claude-3-haiku'', ''anthropic/claude-3-opus'', ''google/gemini-2.0-flash-exp'']
      else
        [''google/gemini-2.0-flash'', ''google/gemini-pro'', ''google/gemini-flash-1.5'',
         ''anthropic/claude-3-haiku''])"

text \<open>The message of the error thrown for a response that is not 2xx, once its error text
  has been read.\<close>

definition openRouterStatusError :: "nat \<Rightarrow> string \<Rightarrow> string" where
  "openRouterStatusError status errorText =
     (if status = 400 then
        ''OpenRouter bad request (400): '' @ substring0 errorText 200 @
        ''. Check model name and request format.''
      else if status = 401 \<or> status = 403 then
        ''OpenRouter authentication failed ('' @ natToString status @ ''): Invalid API key.''
      else if status = 429 then ''OpenRouter rate limit (429): '' @ substring0 errorText 200
      else ''OpenRouter API error ('' @ natToString status @ ''): '' @ substring0 errorText 200)"

text \<open>The \<^verbatim>\<open>try\<close> block around the first request.\<close>

definition openRouterPrimary :: "httpOutcome \<Rightarrow> thrown + string" where
  "openRouterPrimary outcome =
     (case outcome of
        FetchThrows err \<Rightarrow> Inl err
      | Http status errorRead body \<Rightarrow>
          if \<not> isOk status then
            (case errorRead of
               ErrorUnreadable err \<Rightarrow> Inl err
             | ErrorText errorText \<Rightarrow> Inl (newError (openRouterStatusError status errorText)))
          else (case body of
                  BodyError err \<Rightarrow> Inl err
                | BodyContent c \<Rightarrow>
                    if \<not> hasText c then Inl (newError ''OpenRouter returned empty response'')
                    else Inr (case c of Some s \<Rightarrow> s | None \<Rightarrow> [])))"

text \<open>The loop over the fallback models; \<open>None\<close> when it ends without a \<^verbatim>\<open>return\<close>.\<close>

fun openRouterFallbacks ::
  "(nat \<Rightarrow> chatRequest \<Rightarrow> httpOutcome) \<Rightarrow> nat \<Rightarrow> string \<Rightarrow> message list \<Rightarrow> real \<Rightarrow> int \<Rightarrow>
   string list \<Rightarrow> chatRequest list \<times> string option" where
  "openRouterFallbacks fetch i m messageArray t n [] = ([], None)"
| "openRouterFallbacks fetch i m messageArray t n (fallbackModel # rest) =
     (if fallbackModel = m then openRouterFallbacks fetch i m messageArray t n rest
      else
        (let req = openRouterBody fallbackModel messageArray t n;
             next = sentFirst req (openRouterFallbacks fetch (Suc i) m messageArray t n rest)
         in case fetch i req of
              FetchThrows err \<Rightarrow> next
            | Http status errorRead body \<Rightarrow>
                if isOk status then
                  (case body of
                     BodyError err \<Rightarrow> next
                   | BodyContent c \<Rightarrow> if hasText c then ([req], c) else next)
                else if status = 400 then ([req], None)
                else next))"

definition modelNotFound :: "thrown \<Rightarrow> bool" where
  "modelNotFound err \<longleftrightarrow>
     messageIncludes err ''404'' \<or> messageIncludes err ''not found'' \<or> messageIncludes err ''model''"

definition callOpenRouter ::
  "env \<Rightarrow> (nat \<Rightarrow> chatRequest \<Rightarrow> httpOutcome) \<Rightarrow> message list \<Rightarrow> string option \<Rightarrow> callOptions \<Rightarrow>
   chatRequest list \<times> (thrown + string)" where
  "callOpenRouter e fetch messages systemPrompt opts =
     (let requestedModel = requestedModelOf e opts in
      case openRouterKeyFor e requestedModel of
        None \<Rightarrow> ([], Inl (newError (''OpenRouter API key not configured - '' @
                                     keySourceFor requestedModel @ '' is missing or empty'')))
      | Some key \<Rightarrow>
          if key = [] then
            ([], Inl (newError (''OpenRouter API key not configured - '' @
                                keySourceFor requestedModel @ '' is missing or empty'')))
          else if \<not> startsWith key ''sk-or-v1-'' then
            ([], Inl (newError (''OpenRouter API key format invalid - key should start with '' @
                                [CHR 0x27] @ ''sk-or-v1-'' @ [CHR 0x27] @ '' but starts with: '' @
                                substring0 key (min 15 (length key)) @ ''...'')))
          else
            (let t = (case temperature opts of None \<Rightarrow> 2 / 10 | Some v \<Rightarrow> v);
                 n = (case maxTokens opts of None \<Rightarrow> 4000 | Some v \<Rightarrow> v);
                 messageArray = messageArrayOf systemPrompt messages;
                 req = openRouterBody requestedModel messageArray t n
             in case openRouterPrimary (fetch 0 req) of
                  Inr c \<Rightarrow> ([req], Inr c)
                | Inl err \<Rightarrow>
                    if modelNotFound err then
                      (case openRouterFallbacks fetch 1 requestedModel messageArray t n
                              (openRouterFallbackModels requestedModel) of
                         (sent, Some c) \<Rightarrow> (req # sent, Inr c)
                       | (sent, None) \<Rightarrow> (req # sent, Inl err))
                    else ([req], Inl err)))"

subsection \<open>Gemini (direct)\<close>

definition promptLine :: "message \<Rightarrow> string" where
  "promptLine msg =
     (if role msg = ''user'' then msgContent msg @ [CHR 0x0A]
      else if role msg = ''assistant'' then ''Assistant: '' @ msgContent msg @ [CHR 0x0A]
      else [])"

definition fullPromptOf :: "string option \<Rightarrow> message list \<Rightarrow> string" where
  "fullPromptOf systemPrompt messages =
     (if truthyString systemPrompt
      then (case systemPrompt of Some s \<Rightarrow> s | None \<Rightarrow> []) @ [CHR 0x0A, CHR 0x0A]
      else []) @ concat (map promptLine messages)"

text \<open>The first request carries the generation configuration.\<close>

definition geminiRequest :: "string \<Rightarrow> string \<Rightarrow> callOptions \<Rightarrow> promptRequest" where
  "geminiRequest m fullPrompt opts =
     \<lparr>prModel = m, prPrompt = fullPrompt,
      prTemperature = Some (case temperature opts of None \<Rightarrow> 2 / 10 | Some v \<Rightarrow> v),
      prMaxTokens = Some (case maxTokens opts of None \<Rightarrow> 4000 | Some v \<Rightarrow> v)\<rparr>"

text \<open>A request to a fallback model carries the prompt alone.\<close>

definition geminiFallbackRequest :: "string \<Rightarrow> string \<Rightarrow> promptRequest" where
  "geminiFallbackRequest m fullPrompt =
     \<lparr>prModel = m, prPrompt = fullPrompt, prTemperature = None, prMaxTokens = None\<rparr>"

fun geminiFallbacks ::
  "(nat \<Rightarrow> promptRequest \<Rightarrow> generation) \<Rightarrow> nat \<Rightarrow> string \<Rightarrow> string \<Rightarrow> string list \<Rightarrow>
   promptRequest list \<times> string option" where
  "geminiFallbacks generate i m fullPrompt [] = ([], None)"
| "geminiFallbacks generate i m fullPrompt (fallbackModelName # rest) =
     (if fallbackModelName = m then geminiFallbacks generate i m fullPrompt rest
      else
        (let req = geminiFallbackRequest fallbackModelName fullPrompt;
             next = sentFirst req (geminiFallbacks generate (Suc i) m fullPrompt rest)
         in case generate i req of
              GenerationThrows err \<Rightarrow> next
            | GenerationText t \<Rightarrow> if hasText (Some t) then ([req], Some t) else next))"

definition geminiFallbackModels :: "string list" where
  "geminiFallbackModels =
     [''gemini-2.0-flash'', ''gemini-2.5-flash'', ''gemini-2.5-pro'', ''gemini-2.0-flash-lite'']"

definition callGemini ::
  "env \<Rightarrow> (nat \<Rightarrow> promptRequest \<Rightarrow> generation) \<Rightarrow> message list \<Rightarrow> string option \<Rightarrow> callOptions \<Rightarrow>
   promptRequest list \<times> (thrown + string)" where
  "callGemini e generate messages systemPrompt opts =
     (case getGeminiClient e of
        None \<Rightarrow> ([], Inl (newError ''Gemini client not available''))
      | Some c \<Rightarrow>
          if isOpenRouterClient c then ([], Inl (newError ''Gemini client not available''))
          else
            (let m = envOr e ''GEMINI_MODEL'' ''gemini-2.0-flash-exp'';
                 fullPrompt = fullPromptOf systemPrompt messages;
                 req = geminiRequest m fullPrompt opts;
                 primary = (case generate 0 req of
                              GenerationThrows err \<Rightarrow> Inl err
                            | GenerationText t \<Rightarrow>
                                if \<not> hasText (Some t)
                                then Inl (newError ''Gemini returned empty response'')
                                else Inr t)
             in case primary of
                  Inr t \<Rightarrow> ([req], Inr t)
                | Inl err \<Rightarrow>
                    if messageIncludes err ''404'' \<or> messageIncludes err ''not found'' then
                      (case geminiFallbacks generate 1 m fullPrompt geminiFallbackModels of
                         (sent, Some t) \<Rightarrow> (req # sent, Inr t)
                       | (sent, None) \<Rightarrow> (req # sent, Inl err))
                    else ([req], Inl err)))"

subsection \<open>Groq, OpenAI, Perplexity\<close>

text \<open>\<^verbatim>\<open>options.temperature ?? 0.2\<close> and \<^verbatim>\<open>options.maxTokens ?? 4000\<close>, sent as they are.\<close>

definition passThroughBody :: "string \<Rightarrow> message list \<Rightarrow> callOptions \<Rightarrow> chatRequest" where
  "passThroughBody m messageArray opts =
     \<lparr>reqModel = m, reqMessages = messageArray,
      reqTemperature = (case temperature opts of None \<Rightarrow> 2 / 10 | Some v \<Rightarrow> v),
      reqMaxTokens = (case maxTokens opts of None \<Rightarrow> 4000 | Some v \<Rightarrow> v)\<rparr>"

definition groqBody :: "string \<Rightarrow> message list \<Rightarrow> callOptions \<Rightarrow> chatRequest" where
  "groqBody = passThroughBody"

definition openAIBody :: "string \<Rightarrow> message list \<Rightarrow> callOptions \<Rightarrow> chatRequest" where
  "openAIBody = passThroughBody"

definition perplexityBody :: "string \<Rightarrow> message list \<Rightarrow> callOptions \<Rightarrow> chatRequest" where
  "perplexityBody = passThroughBody"

definition groqModels :: "env \<Rightarrow> string list" where
  "groqModels e =
     [envOr e ''GROQ_MODEL'' ''llama-3.3-70b-versatile'', ''llama-3.3-70b-versatile'',
      ''llama-3.1-8b-instant'', ''llama-3.1-70b-versatile'', ''llama-3-8b-8192'',
      ''mixtral-8x7b-32768'']"

definition groqModelGone :: "thrown \<Rightarrow> bool" where
  "groqModelGone err \<longleftrightarrow>
     messageIncludes err ''decommissioned'' \<or> messageIncludes err ''not found'' \<or>
     messageIncludes err ''404''"

fun groqLoop ::
  "(nat \<Rightarrow> chatRequest \<Rightarrow> completion) \<Rightarrow> nat \<Rightarrow> message list \<Rightarrow> callOptions \<Rightarrow> thrown option \<Rightarrow>
   string list \<Rightarrow> chatRequest list \<times> (thrown + string)" where
  "groqLoop create i messageArray opts lastError [] =
     ([], Inl (newError (''All Groq models failed: '' @ messageOrUnknown lastError)))"
| "groqLoop create i messageArray opts lastError (m # rest) =
     (let req = groqBody m messageArray opts in
      case create i req of
        Completion c \<Rightarrow> ([req], Inr (contentOrEmptyObject c))
      | CompletionThrows err \<Rightarrow>
          if groqModelGone err
          then sentFirst req (groqLoop create (Suc i) messageArray opts (Some err) rest)
          else ([req], Inl err))"

definition callGroq ::
  "env \<Rightarrow> (nat \<Rightarrow> chatRequest \<Rightarrow> completion) \<Rightarrow> message list \<Rightarrow> string option \<Rightarrow> callOptions \<Rightarrow>
   chatRequest list \<times> (thrown + string)" where
  "callGroq e create messages systemPrompt opts =
     (case getGroqClient e of
        None \<Rightarrow> ([], Inl (newError ''Groq client not available''))
      | Some c \<Rightarrow> groqLoop create 0 (messageArrayOf systemPrompt messages) opts None (groqModels e))"

definition callOpenAI ::
  "env \<Rightarrow> (nat \<Rightarrow> chatRequest \<Rightarrow> completion) \<Rightarrow> message list \<Rightarrow> string option \<Rightarrow> callOptions \<Rightarrow>
   chatRequest list \<times> (thrown + string)" where
  "callOpenAI e create messages systemPrompt opts =
     (case getOpenAIClient e of
        None \<Rightarrow> ([], Inl (newError ''OpenAI client not available''))
      | Some cl \<Rightarrow>
          (let req = openAIBody (envOr e ''OPENAI_MODEL'' ''gpt-4o-mini'')
                       (messageArrayOf systemPrompt messages) opts
           in case create 0 req of
                CompletionThrows err \<Rightarrow> ([req], Inl err)
              | Completion c \<Rightarrow> ([req], Inr (contentOrEmptyObject c))))"

text \<open>\<^verbatim>\<open>new Error(`Perplexity API failed: ${err.message}`)\<close>: a missing message prints as
  \<^verbatim>\<open>undefined\<close>.\<close>

definition perplexityFailed :: "thrown \<Rightarrow> thrown" where
  "perplexityFailed err =
     newError (''Perplexity API failed: '' @
               (case excMessage err of None \<Rightarrow> ''undefined'' | Some m \<Rightarrow> m))"

definition callPerplexity ::
  "env \<Rightarrow> (nat \<Rightarrow> chatRequest \<Rightarrow> httpOutcome) \<Rightarrow> message list \<Rightarrow> string option \<Rightarrow> callOptions \<Rightarrow>
   chatRequest list \<times> (thrown + string)" where
  "callPerplexity e fetch messages systemPrompt opts =
     (case e ''PERPLEXITY_API_KEY'' of
        None \<Rightarrow> ([], Inl (newError ''Perplexity API key not configured''))
      | Some k \<Rightarrow>
          if k = [] \<or> k = ''your_perplexity_api_key_here'' \<or> trim k = []
          then ([], Inl (newError ''Perplexity API key not configured''))
          else
            (let req = perplexityBody (envOr e ''PERPLEXITY_MODEL'' ''llama-3.1-sonar-large-32k-online'')
                         (messageArrayOf systemPrompt messages) opts
             in case fetch 0 req of
                  FetchThrows err \<Rightarrow> ([req], Inl (perplexityFailed err))
                | Http status errorRead body \<Rightarrow>
                    if \<not> isOk status then
                      (case errorRead of
                         ErrorUnreadable err \<Rightarrow> ([req], Inl (perplexityFailed err))
                       | ErrorText errorText \<Rightarrow>
                           ([req], Inl (perplexityFailed
                              (newError (''Perplexity API error: '' @ natToString status @
                                         '' - '' @ errorText)))))
                    else (case body of
                            BodyError err \<Rightarrow> ([req], Inl (perplexityFailed err))
                          | BodyContent c \<Rightarrow> ([req], Inr (contentOrEmptyObject c)))))"

subsection \<open>Hugging Face\<close>

definition hfPrompt :: "string option \<Rightarrow> message list \<Rightarrow> string" where
  "hfPrompt systemPrompt messages =
     (if truthyString systemPrompt
      then (case systemPrompt of Some s \<Rightarrow> s | None \<Rightarrow> []) @ [CHR 0x0A, CHR 0x0A]
      else []) @
     concat (map (\<lambda>msg. if role msg = ''user'' then msgContent msg @ [CHR 0x0A] else []) messages)"

definition hfBody :: "string \<Rightarrow> string \<Rightarrow> callOptions \<Rightarrow> promptRequest" where
  "hfBody m prompt opts =
     \<lparr>prModel = m, prPrompt = prompt,
      prTemperature = Some (case temperature opts of None \<Rightarrow> 2 / 10 | Some v \<Rightarrow> v),
      prMaxTokens = Some (min (case maxTokens opts of None \<Rightarrow> 2000 | Some v \<Rightarrow> v) 2000)\<rparr>"

definition hfModels :: "env \<Rightarrow> string list" where
  "hfModels e =
     [envOr e ''HUGGINGFACE_MODEL'' ''mistralai/Mistral-7B-Instruct-v0.2'',
      ''mistralai/Mistral-7B-Instruct-v0.2'', ''meta-llama/Llama-2-7b-chat-hf'',
      ''google/flan-t5-large'']"

text \<open>The body of the \<^verbatim>\<open>try\<close> block for one model: \<open>None\<close> is the \<^verbatim>\<open>continue\<close> taken for
  status 410 or 404, \<open>Some (Inl err)\<close> a value thrown into the \<^verbatim>\<open>catch\<close>.\<close>

definition hfAttempt :: "string \<Rightarrow> hfOutcome \<Rightarrow> (thrown + string) option" where
  "hfAttempt m outcome =
     (case outcome of
        HfFetchThrows err \<Rightarrow> Some (Inl err)
      | HfHttp status errorRead body \<Rightarrow>
          if \<not> isOk status then
            (if status = 410 \<or> status = 404 then None
             else (case errorRead of
                     ErrorUnreadable err \<Rightarrow> Some (Inl err)
                   | ErrorText errorText \<Rightarrow>
                       Some (Inl (newError (''Hugging Face API error: '' @ natToString status @
                                            '' - '' @ errorText)))))
          else (case body of
                  HfUnreadable err \<Rightarrow> Some (Inl err)
                | HfArray g \<Rightarrow>
                    if truthyString g then Some (Inr (trim (case g of Some s \<Rightarrow> s | None \<Rightarrow> [])))
                    else Some (Inl (newError ''Unexpected Hugging Face response format''))
                | HfObject g \<Rightarrow>
                    if truthyString g then Some (Inr (trim (case g of Some s \<Rightarrow> s | None \<Rightarrow> [])))
                    else Some (Inl (newError ''Unexpected Hugging Face response format''))
                | HfString s \<Rightarrow> Some (Inr (trim s))
                | HfOther \<Rightarrow> Some (Inl (newError ''Unexpected Hugging Face response format''))))"

definition hfModelGone :: "thrown \<Rightarrow> bool" where
  "hfModelGone err \<longleftrightarrow>
     messageIncludes err ''410'' \<or> messageIncludes err ''404'' \<or> messageIncludes err ''not available''"

fun hfLoop ::
  "(nat \<Rightarrow> promptRequest \<Rightarrow> hfOutcome) \<Rightarrow> nat \<Rightarrow> string \<Rightarrow> callOptions \<Rightarrow> thrown option \<Rightarrow>
   string list \<Rightarrow> promptRequest list \<times> (thrown + string)" where
  "hfLoop fetch i prompt opts lastError [] =
     ([], Inl (newError (''All Hugging Face models failed: '' @ messageOrUnknown lastError)))"
| "hfLoop fetch i prompt opts lastError (m # rest) =
     (let req = hfBody m prompt opts in
      case hfAttempt m (fetch i req) of
        None \<Rightarrow>
          sentFirst req
            (hfLoop fetch (Suc i) prompt opts (Some (newError (''Model '' @ m @ '' not available''))) rest)
      | Some (Inr text) \<Rightarrow> ([req], Inr text)
      | Some (Inl err) \<Rightarrow>
          if hfModelGone err then sentFirst req (hfLoop fetch (Suc i) prompt opts (Some err) rest)
          else ([req], Inl err))"

definition callHuggingFace ::
  "env \<Rightarrow> (nat \<Rightarrow> promptRequest \<Rightarrow> hfOutcome) \<Rightarrow> message list \<Rightarrow> string option \<Rightarrow> callOptions \<Rightarrow>
   promptRequest list \<times> (thrown + string)" where
  "callHuggingFace e fetch messages systemPrompt opts =
     (case e ''HUGGINGFACE_API_KEY'' of
        None \<Rightarrow> ([], Inl (newError ''Hugging Face API key not configured''))
      | Some k \<Rightarrow>
          if k = [] \<or> k = ''your_huggingface_api_key_here''
          then ([], Inl (newError ''Hugging Face API key not configured''))
          else hfLoop fetch 0 (hfPrompt systemPrompt messages) opts None (hfModels e))"

subsection \<open>Notions used to state what the adapters send and return\<close>

text \<open>The temperature and the token limit a caller's options stand for
  (\<^verbatim>\<open>?? 0.2\<close>, \<^verbatim>\<open>?? 4000\<close>).\<close>

definition callerTemperature :: "callOptions \<Rightarrow> real" where
  "callerTemperature opts = (case temperature opts of None \<Rightarrow> 2 / 10 | Some v \<Rightarrow> v)"

definition callerMaxTokens :: "callOptions \<Rightarrow> int" where
  "callerMaxTokens opts = (case maxTokens opts of None \<Rightarrow> 4000 | Some v \<Rightarrow> v)"



text \<open>The Hugging Face key is set and is not the placeholder.\<close>

definition hfConfigured :: "env \<Rightarrow> bool" where
  "hfConfigured e \<longleftrightarrow>
     (case e ''HUGGINGFACE_API_KEY'' of
        None \<Rightarrow> False
      | Some k \<Rightarrow> k \<noteq> [] \<and> k \<noteq> ''your_huggingface_api_key_here'')"

text \<open>The Perplexity key is set, is not the placeholder and is not blank.\<close>

definition perplexityConfigured :: "env \<Rightarrow> bool" where
  "perplexityConfigured e \<longleftrightarrow>
     (case e ''PERPLEXITY_API_KEY'' of
        None \<Rightarrow> False
      | Some k \<Rightarrow> k \<noteq> [] \<and> k \<noteq> ''your_perplexity_api_key_here'' \<and> trim k \<noteq> [])"

section \<open>Regular expressions\<close>

text \<open>
  The regular expressions of the lab-value extractor are written as terms of a small syntax
  and run by a backtracking matcher that follows the JavaScript rules: alternatives are tried
  from left to right, quantifiers are greedy, an iteration that consumes nothing is not
  taken, and a search returns the first match at the leftmost position.
\<close>

definition lowerChars :: string where
  "lowerChars = ''abcdefghijklmnopqrstuvwxyz''"

definition upperChars :: string where
  "upperChars = ''ABCDEFGHIJKLMNOPQRSTUVWXYZ''"

definition toLowerChar :: "char \<Rightarrow> char" where
  "toLowerChar c = (case map_of (zip upperChars lowerChars) c of Some d \<Rightarrow> d | None \<Rightarrow> c)"

definition toUpperChar :: "char \<Rightarrow> char" where
  "toUpperChar c = (case map_of (zip lowerChars upperChars) c of Some d \<Rightarrow> d | None \<Rightarrow> c)"

definition toLowerCase :: "string \<Rightarrow> string" where
  "toLowerCase s = map toLowerChar s"

definition isWordChar :: "char \<Rightarrow> bool" where
  "isWordChar c \<longleftrightarrow> c \<in> set (lowerChars @ upperChars @ digitChars @ ''_'')"

datatype regex =
    Eps
  | Chr bool string
  | Bol
  | Eol
  | WordB
  | Seq regex regex
  | Alt regex regex
  | Star regex
  | Group nat regex

text \<open>
  A matcher state: the character before the current position (\<open>None\<close> at the start of the
  text), the text from the current position on, and the groups captured so far.
  \<open>Chr neg cs\<close> is one character in (\<open>neg = False\<close>) or not in the set \<open>cs\<close>.
\<close>

type_synonym mstate = "char option \<times> string \<times> (nat \<times> string) list"

definition inClass :: "bool \<Rightarrow> bool \<Rightarrow> string \<Rightarrow> char \<Rightarrow> bool" where
  "inClass ic neg cs c \<longleftrightarrow>
     (if ic then toLowerChar c \<in> set (map toLowerChar cs) else c \<in> set cs) \<noteq> neg"

definition atBoundary :: "char option \<Rightarrow> string \<Rightarrow> bool" where
  "atBoundary prev rest \<longleftrightarrow>
     (case prev of None \<Rightarrow> False | Some c \<Rightarrow> isWordChar c) \<noteq>
     (case rest of [] \<Rightarrow> False | c # cs \<Rightarrow> isWordChar c)"

definition restOf :: "mstate \<Rightarrow> string" where
  "restOf st = fst (snd st)"

definition capture :: "nat \<Rightarrow> mstate \<Rightarrow> mstate \<Rightarrow> mstate" where
  "capture n st st' =
     (fst st', restOf st',
      (n, take (length (restOf st) - length (restOf st')) (restOf st)) # snd (snd st'))"

function rx :: "bool \<Rightarrow> regex \<Rightarrow> mstate \<Rightarrow> mstate list" where
  "rx ic Eps st = [st]"
| "rx ic (Chr neg cs) st =
     (case restOf st of
        [] \<Rightarrow> []
      | c # rest \<Rightarrow> if inClass ic neg cs c then [(Some c, rest, snd (snd st))] else [])"
| "rx ic Bol st = (if fst st = None then [st] else [])"
| "rx ic Eol st = (if restOf st = [] then [st] else [])"
| "rx ic WordB st = (if atBoundary (fst st) (restOf st) then [st] else [])"
| "rx ic (Seq a b) st = concat (map (\<lambda>st'. rx ic b st') (rx ic a st))"
| "rx ic (Alt a b) st = rx ic a st @ rx ic b st"
| "rx ic (Star a) st =
     concat (map (\<lambda>st'. if length (restOf st') < length (restOf st) then rx ic (Star a) st' else [])
               (rx ic a st)) @ [st]"
| "rx ic (Group n a) st = map (capture n st) (rx ic a st)"
  by pat_completeness auto
termination
  by (relation "inv_image (less_than <*lex*> less_than) (\<lambda>(ic, r, st). (size r, length (restOf st)))")
     auto

subsection \<open>Building blocks\<close>

definition lit :: "string \<Rightarrow> regex" where
  "lit s = foldr (\<lambda>c r. Seq (Chr False [c]) r) s Eps"

definition alts :: "regex list \<Rightarrow> regex" where
  "alts rs = foldr Alt rs (Chr False [])"

definition plus1 :: "regex \<Rightarrow> regex" where
  "plus1 r = Seq r (Star r)"

definition opt :: "regex \<Rightarrow> regex" where
  "opt r = Alt r Eps"

definition atLeast2 :: "regex \<Rightarrow> regex" where
  "atLeast2 r = Seq r (Seq r (Star r))"

definition digit :: regex where
  "digit = Chr False digitChars"

definition space :: regex where
  "space = Chr False whitespaceChars"

definition enDash :: string where
  "enDash = [CHR 0xE2, CHR 0x80, CHR 0x93]"

definition emDash :: string where
  "emDash = [CHR 0xE2, CHR 0x80, CHR 0x94]"

subsection \<open>Searching, testing, replacing, splitting\<close>

record rmatch =
  mIndex :: nat
  mText :: string
  mGroups :: "(nat \<times> string) list"

definition groupText :: "rmatch \<Rightarrow> nat \<Rightarrow> string" where
  "groupText m n = (case map_of (mGroups m) n of None \<Rightarrow> [] | Some s \<Rightarrow> s)"

text \<open>The first match at the current position, if there is one.\<close>

definition matchHere :: "bool \<Rightarrow> regex \<Rightarrow> char option \<Rightarrow> string \<Rightarrow> mstate option" where
  "matchHere ic r prev s = (case rx ic r (prev, s, []) of [] \<Rightarrow> None | st # others \<Rightarrow> Some st)"

fun searchFrom :: "bool \<Rightarrow> regex \<Rightarrow> char option \<Rightarrow> nat \<Rightarrow> string \<Rightarrow> rmatch option" where
  "searchFrom ic r prev idx [] =
     (case matchHere ic r prev [] of
        None \<Rightarrow> None
      | Some st \<Rightarrow> Some \<lparr>mIndex = idx, mText = [], mGroups = snd (snd st)\<rparr>)"
| "searchFrom ic r prev idx (c # cs) =
     (case matchHere ic r prev (c # cs) of
        None \<Rightarrow> searchFrom ic r (Some c) (Suc idx) cs
      | Some st \<Rightarrow>
          Some \<lparr>mIndex = idx, mText = take (length (c # cs) - length (restOf st)) (c # cs),
                mGroups = snd (snd st)\<rparr>)"

text \<open>\<^verbatim>\<open>s.match(r)\<close> for a regular expression without the \<^verbatim>\<open>g\<close> flag, and \<^verbatim>\<open>r.test(s)\<close>.\<close>

definition regexMatch :: "bool \<Rightarrow> regex \<Rightarrow> string \<Rightarrow> rmatch option" where
  "regexMatch ic r s = searchFrom ic r None 0 s"

definition regexTest :: "bool \<Rightarrow> regex \<Rightarrow> string \<Rightarrow> bool" where
  "regexTest ic r s = (regexMatch ic r s \<noteq> None)"

text \<open>\<^verbatim>\<open>s.match(r)\<close> with the \<^verbatim>\<open>g\<close> flag: the texts of all matches, from left to right; an empty
  match moves on by one character.\<close>

function matchAllFrom :: "bool \<Rightarrow> regex \<Rightarrow> char option \<Rightarrow> string \<Rightarrow> string list" where
  "matchAllFrom ic r prev s =
     (case searchFrom ic r prev 0 s of
        None \<Rightarrow> []
      | Some m \<Rightarrow>
          (let used = mIndex m + max 1 (length (mText m)) in
           if length s < used then [mText m]
           else mText m # matchAllFrom ic r (Some (s ! (used - 1))) (drop used s)))"
  by pat_completeness auto
termination
  by (relation "measure (\<lambda>(ic, r, prev, s). length s)") auto

definition matchAll :: "bool \<Rightarrow> regex \<Rightarrow> string \<Rightarrow> string list" where
  "matchAll ic r s = matchAllFrom ic r None s"

text \<open>\<^verbatim>\<open>s.replace(r, rep)\<close> with the \<^verbatim>\<open>g\<close> flag and a replacement without \<^verbatim>\<open>$\<close>.\<close>

function replaceAllFrom :: "bool \<Rightarrow> regex \<Rightarrow> string \<Rightarrow> char option \<Rightarrow> string \<Rightarrow> string" where
  "replaceAllFrom ic r rep prev s =
     (case searchFrom ic r prev 0 s of
        None \<Rightarrow> s
      | Some m \<Rightarrow>
          (let used = mIndex m + max 1 (length (mText m)) in
           if length s < used then take (mIndex m) s @ rep
           else take (mIndex m) s @ rep @
                (if mText m = [] then [s ! mIndex m] else []) @
                replaceAllFrom ic r rep (Some (s ! (used - 1))) (drop used s)))"
  by pat_completeness auto
termination
  by (relation "measure (\<lambda>(ic, r, rep, prev, s). length s)") auto

definition replaceAll :: "bool \<Rightarrow> regex \<Rightarrow> string \<Rightarrow> string \<Rightarrow> string" where
  "replaceAll ic r rep s = replaceAllFrom ic r rep None s"

text \<open>
  \<^verbatim>\<open>s.split(r)\<close> for a regular expression without groups: \<open>cur\<close> is the piece begun and
  not yet closed.  A match that ends where the piece began is skipped.
\<close>

function splitLoop :: "bool \<Rightarrow> regex \<Rightarrow> char option \<Rightarrow> string \<Rightarrow> string \<Rightarrow> string list" where
  "splitLoop ic r prev cur [] = [cur]"
| "splitLoop ic r prev cur (c # cs) =
     (case matchHere ic r prev (c # cs) of
        None \<Rightarrow> splitLoop ic r (Some c) (cur @ [c]) cs
      | Some st \<Rightarrow>
          if length (restOf st) < length (c # cs)
          then cur # splitLoop ic r (fst st) [] (restOf st)
          else if cur = [] then splitLoop ic r (Some c) (cur @ [c]) cs
          else cur # splitLoop ic r prev [] (c # cs))"
  by pat_completeness auto
termination
  by (relation "measure (\<lambda>(ic, r, prev, cur, s). 2 * length s + (if cur = [] then 0 else 1))") auto

definition regexSplit :: "bool \<Rightarrow> regex \<Rightarrow> string \<Rightarrow> string list" where
  "regexSplit ic r s =
     (if s = [] then (if matchHere ic r None [] = None then [[]] else [])
      else splitLoop ic r None [] s)"

text \<open>\<^verbatim>\<open>s.lastIndexOf(sub)\<close>.\<close>

fun lastIndexOfFrom :: "string \<Rightarrow> nat \<Rightarrow> string \<Rightarrow> nat option" where
  "lastIndexOfFrom sub idx [] = (if sub = [] then Some idx else None)"
| "lastIndexOfFrom sub idx (c # cs) =
     (case lastIndexOfFrom sub (Suc idx) cs of
        Some i \<Rightarrow> Some i
      | None \<Rightarrow> if startsWith (c # cs) sub then Some idx else None)"

definition lastIndexOf :: "string \<Rightarrow> string \<Rightarrow> nat option" where
  "lastIndexOf s sub = lastIndexOfFrom sub 0 s"

section \<open>Lab-value extractor\<close>

text \<open>
  The two dashes of the source's patterns are written as their UTF-8 bytes; on ASCII text
  they never match.
\<close>

record finding =
  test :: string
  val :: string
  unit :: string
  referenceRange :: string
  flag :: string
  severity :: string
  interpretationText :: string

definition FLAG_TERMS :: "string list" where
  "FLAG_TERMS =
     [''critical high'', ''critical low'', ''very high'', ''very low'', ''high'', ''low'',
      ''elevated'', ''reduced'', ''above normal'', ''below normal'', ''above range'',
      ''below range'']"

definition FLAG_REGEX :: regex where
  "FLAG_REGEX = Seq WordB (Seq (Group 1 (alts (map lit FLAG_TERMS))) WordB)"

definition NORMAL_REGEX :: regex where
  "NORMAL_REGEX =
     Seq WordB (Seq (Group 1 (alts [lit ''wnl'', lit ''within normal limits'', lit ''normal'',
                                    lit ''negative''])) WordB)"

text \<open>\<^verbatim>\<open>-?\d+(?:\.\d+)?\<close>\<close>

definition NUMBER_REGEX :: regex where
  "NUMBER_REGEX = Seq (opt (lit ''-'')) (Seq (plus1 digit) (opt (Seq (lit ''.'') (plus1 digit))))"

definition RANGE_REGEX :: regex where
  "RANGE_REGEX =
     Seq (Group 1 NUMBER_REGEX)
       (Seq (Star space)
         (Seq (alts [lit ''-'', lit enDash, lit emDash, lit ''to'', lit ''TO''])
           (Seq (Star space) (Group 2 NUMBER_REGEX))))"

definition unitChars :: string where
  "unitChars = lowerChars @ upperChars @ ''%/''"

definition UNIT_REGEX :: regex where
  "UNIT_REGEX =
     Seq (Group 1 (Seq (plus1 (Chr False unitChars)) (opt (Seq (lit ''^'') (plus1 digit))))) Eol"

text \<open>\<^verbatim>\<open>\d+\.?\d*\<close> and the class \<^verbatim>\<open>[-\u2013\u2014to]\<close>\<close>

definition looseNumber :: regex where
  "looseNumber = Seq (plus1 digit) (Seq (opt (lit ''.'')) (Star digit))"

definition dashOrTo :: regex where
  "dashOrTo = alts [Chr False ''-to'', lit enDash, lit emDash]"

text \<open>\<^verbatim>\<open>/\(([^)]*reference[^)]*)\)/i\<close> and \<^verbatim>\<open>/\[([^\]]*reference[^\]]*)\]/i\<close>\<close>

definition PAREN_REFERENCE :: regex where
  "PAREN_REFERENCE =
     Seq (lit ''('')
       (Seq (Group 1 (Seq (Star (Chr True '')'')) (Seq (lit ''reference'') (Star (Chr True '')'')))))
         (lit '')''))"

definition BRACKET_REFERENCE :: regex where
  "BRACKET_REFERENCE =
     Seq (lit ''['')
       (Seq (Group 1 (Seq (Star (Chr True '']'')) (Seq (lit ''reference'') (Star (Chr True '']'')))))
         (lit '']''))"

text \<open>\<^verbatim>\<open>/(?:ref|reference):\s*([0-9.\s\-\u2013\u2014to]+)/i\<close>\<close>

definition REF_LABEL :: regex where
  "REF_LABEL =
     Seq (alts [lit ''ref'', lit ''reference''])
       (Seq (lit '':'')
         (Seq (Star space)
           (Group 1 (plus1 (alts [Chr False (digitChars @ ''.'' @ whitespaceChars @ ''-to''),
                                  lit enDash, lit emDash])))))"

text \<open>\<^verbatim>\<open>/\s*\|\s*|\s{2,}|\s*:\s*/\<close>\<close>

definition PART_SEPARATOR :: regex where
  "PART_SEPARATOR =
     alts [Seq (Star space) (Seq (lit ''|'') (Star space)),
           atLeast2 space,
           Seq (Star space) (Seq (lit '':'') (Star space))]"

text \<open>\<^verbatim>\<open>/^-?\d+\.?\d*$/\<close> and \<^verbatim>\<open>/^[a-zA-Z%\/]+$/\<close>\<close>

definition NUMERIC_PART :: regex where
  "NUMERIC_PART =
     Seq Bol (Seq (opt (lit ''-'')) (Seq (plus1 digit) (Seq (opt (lit ''.'')) (Seq (Star digit) Eol))))"

definition UNIT_PART :: regex where
  "UNIT_PART = Seq Bol (Seq (plus1 (Chr False unitChars)) Eol)"

text \<open>\<^verbatim>\<open>/[\(\[][^\)\]]*(\d+\.?\d*)\s*[-\u2013\u2014to]\s*(\d+\.?\d*)[^\)\]]*[\)\]]/i\<close>\<close>

definition PAREN_RANGE :: regex where
  "PAREN_RANGE =
     Seq (Chr False ''(['')
       (Seq (Star (Chr True '')]''))
         (Seq (Group 1 looseNumber)
           (Seq (Star space)
             (Seq dashOrTo
               (Seq (Star space)
                 (Seq (Group 2 looseNumber)
                   (Seq (Star (Chr True '')]'')) (Chr False '')]''))))))))"

text \<open>\<^verbatim>\<open>/(?:ref|reference|normal|range)[:\s]*(\d+\.?\d*)\s*[-\u2013\u2014to]\s*(\d+\.?\d*)/i\<close>\<close>

definition CONTEXT_RANGE :: regex where
  "CONTEXT_RANGE =
     Seq (alts [lit ''ref'', lit ''reference'', lit ''normal'', lit ''range''])
       (Seq (Star (Chr False ('':'' @ whitespaceChars)))
         (Seq (Group 1 looseNumber)
           (Seq (Star space) (Seq dashOrTo (Seq (Star space) (Group 2 looseNumber))))))"

text \<open>\<^verbatim>\<open>/\r?\n+/\<close>, \<^verbatim>\<open>/^[-=._]+$/\<close> and the header test.\<close>

definition LINE_BREAK :: regex where
  "LINE_BREAK = Seq (opt (Chr False [CHR 0x0D])) (plus1 (Chr False [CHR 0x0A]))"

definition SEPARATOR_LINE :: regex where
  "SEPARATOR_LINE = Seq Bol (Seq (plus1 (Chr False ''-=._'')) Eol)"

definition HEADER_LINE :: regex where
  "HEADER_LINE =
     Seq Bol (Group 1 (alts [lit ''test'', lit ''parameter'', lit ''name'', lit ''value'',
                             lit ''result'', lit ''unit'', lit ''reference'', lit ''normal'',
                             lit ''range'', lit ''flag'', lit ''status'']))"

definition hasDigit :: "string \<Rightarrow> bool" where
  "hasDigit s = regexTest False digit s"

definition normalizeFlagWord :: "string \<Rightarrow> string" where
  "normalizeFlagWord word =
     (let lower = toLowerCase word in
      if str_includes lower ''critical'' \<and> str_includes lower ''high'' then ''Critical High''
      else if str_includes lower ''critical'' \<and> str_includes lower ''low'' then ''Critical Low''
      else if str_includes lower ''high'' \<or> str_includes lower ''above'' \<or>
              str_includes lower ''elevated'' then ''High''
      else if str_includes lower ''low'' \<or> str_includes lower ''below'' \<or>
              str_includes lower ''reduced'' then ''Low''
      else map toUpperChar (take 1 word) @ toLowerCase (drop 1 word))"

definition deriveSeverity :: "string \<Rightarrow> string" where
  "deriveSeverity word =
     (let lower = toLowerCase word in
      if str_includes lower ''critical'' then ''critical''
      else if str_includes lower ''high'' \<or> str_includes lower ''above'' \<or>
              str_includes lower ''elevated'' then ''high''
      else if str_includes lower ''low'' \<or> str_includes lower ''below'' \<or>
              str_includes lower ''reduced'' then ''low''
      else [])"

definition rangeText :: "rmatch \<Rightarrow> string" where
  "rangeText m = groupText m 1 @ '' - '' @ groupText m 2"

definition interpretationOf :: "string \<Rightarrow> string \<Rightarrow> string" where
  "interpretationOf normalizedFlag rangeStr =
     normalizedFlag @ '' value'' @
     (if rangeStr \<noteq> [] then '' (reference '' @ rangeStr @ '')'' else [])"

subsection \<open>\<^verbatim>\<open>parseAbnormalRow\<close>\<close>

text \<open>Patterns 2 and 3, tried when the row holds no plain range.\<close>

definition labelledRange :: "string \<Rightarrow> string" where
  "labelledRange working =
     (let parenMatch = (case regexMatch True PAREN_REFERENCE working of
                          Some m \<Rightarrow> Some m
                        | None \<Rightarrow> regexMatch True BRACKET_REFERENCE working);
          fromParen = (case parenMatch of
                         None \<Rightarrow> []
                       | Some m \<Rightarrow> (case regexMatch True RANGE_REGEX (groupText m 1) of
                                      None \<Rightarrow> []
                                    | Some r \<Rightarrow> rangeText r))
      in case regexMatch True REF_LABEL working of
           None \<Rightarrow> fromParen
         | Some m \<Rightarrow> (case regexMatch True RANGE_REGEX (groupText m 1) of
                        None \<Rightarrow> fromParen
                      | Some r \<Rightarrow> rangeText r))"

definition takeRange :: "string \<Rightarrow> string \<times> string" where
  "takeRange working =
     (case regexMatch True RANGE_REGEX working of
        Some rangeMatch \<Rightarrow>
          (rangeText rangeMatch,
           trim (take (mIndex rangeMatch) working @
                 drop (mIndex rangeMatch + length (mText rangeMatch)) working))
      | None \<Rightarrow> (labelledRange working, working))"

definition takeValue :: "string \<Rightarrow> string \<times> string" where
  "takeValue working =
     (case matchAll False NUMBER_REGEX working of
        [] \<Rightarrow> ([], working)
      | v # vs \<Rightarrow>
          (last (v # vs),
           (case lastIndexOf working (last (v # vs)) of
              None \<Rightarrow> working
            | Some idx \<Rightarrow> trim (take idx working))))"

definition takeUnit :: "string \<Rightarrow> string \<times> string" where
  "takeUnit working =
     (case regexMatch False UNIT_REGEX working of
        None \<Rightarrow> ([], working)
      | Some unitMatch \<Rightarrow> (groupText unitMatch 1, trim (take (mIndex unitMatch) working)))"

definition parseAbnormalRow :: "string \<Rightarrow> string \<Rightarrow> finding option" where
  "parseAbnormalRow row fallbackTest =
     (case regexMatch True FLAG_REGEX row of
        None \<Rightarrow> None
      | Some flagMatch \<Rightarrow>
          (let flagWord = groupText flagMatch 1 in
           if regexTest True NORMAL_REGEX flagWord then None
           else
             (let normalizedFlag = normalizeFlagWord flagWord;
                  ranged = takeRange (trim (take (mIndex flagMatch) row));
                  valued = takeValue (snd ranged);
                  united = takeUnit (snd valued);
                  testName = trim (replaceAll False (atLeast2 space) '' ''
                               (if snd united \<noteq> [] then snd united else fallbackTest))
              in if testName = [] \<or> fst valued = [] then None
                 else Some \<lparr>test = testName, val = fst valued, unit = fst united,
                            referenceRange = fst ranged, flag = normalizedFlag,
                            severity = deriveSeverity flagWord,
                            interpretationText = interpretationOf normalizedFlag (fst ranged)\<rparr>)))"

subsection \<open>\<^verbatim>\<open>extractTestDataFromLine\<close>\<close>

record lineFields =
  lfTest :: string
  lfValue :: string
  lfUnit :: string
  lfRange :: string

text \<open>One pass of the loop over the parts of the line.\<close>

definition classifyPart :: "string \<Rightarrow> string \<Rightarrow> lineFields \<Rightarrow> lineFields" where
  "classifyPart flagWord part fs =
     (if regexTest False NUMERIC_PART part \<and> lfValue fs = [] then fs\<lparr>lfValue := part\<rparr>
      else
        (case (if lfRange fs = [] then regexMatch True RANGE_REGEX part else None) of
           Some rangeMatch \<Rightarrow> fs\<lparr>lfRange := rangeText rangeMatch\<rparr>
         | None \<Rightarrow>
             if regexTest False UNIT_PART part \<and> lfUnit fs = [] \<and> lfValue fs \<noteq> []
               then fs\<lparr>lfUnit := part\<rparr>
             else if regexTest True FLAG_REGEX part \<and> part = flagWord then fs
             else if lfValue fs = [] \<and> lfRange fs = []
               then fs\<lparr>lfTest := lfTest fs @ (if lfTest fs \<noteq> [] then '' '' else []) @ part\<rparr>
             else fs))"

definition lineParts :: "string \<Rightarrow> string list" where
  "lineParts line = filter (\<lambda>p. p \<noteq> []) (map trim (regexSplit False PART_SEPARATOR line))"

definition parenRange :: "string \<Rightarrow> string" where
  "parenRange line =
     (case regexMatch True PAREN_RANGE line of
        None \<Rightarrow> []
      | Some parenMatch \<Rightarrow>
          (case regexMatch True RANGE_REGEX (mText parenMatch) of
             None \<Rightarrow> []
           | Some rangeMatch \<Rightarrow> rangeText rangeMatch))"

definition contextRange :: "string \<Rightarrow> string \<Rightarrow> string" where
  "contextRange prevLine nextLine =
     (case regexMatch True CONTEXT_RANGE (toLowerCase (prevLine @ '' '' @ nextLine)) of
        None \<Rightarrow> []
      | Some m \<Rightarrow> rangeText m)"

definition extractTestDataFromLine :: "string \<Rightarrow> string \<Rightarrow> string \<Rightarrow> finding option" where
  "extractTestDataFromLine line nextLine prevLine =
     (case regexMatch True FLAG_REGEX line of
        None \<Rightarrow> None
      | Some flagMatch \<Rightarrow>
          (let flagWord = groupText flagMatch 1 in
           if regexTest True NORMAL_REGEX flagWord then None
           else
             (let fs = fold (classifyPart flagWord) (lineParts line)
                             \<lparr>lfTest = [], lfValue = [], lfUnit = [], lfRange = []\<rparr>;
                  range1 = (if lfRange fs = [] then parenRange line else lfRange fs);
                  range2 = (if range1 = [] then contextRange prevLine nextLine else range1)
              in if lfTest fs = [] \<or> lfValue fs = [] then None
                 else Some \<lparr>test = trim (lfTest fs), val = trim (lfValue fs),
                            unit = trim (lfUnit fs), referenceRange = trim range2,
                            flag = normalizeFlagWord flagWord,
                            severity = deriveSeverity flagWord,
                            interpretationText = interpretationOf (normalizeFlagWord flagWord) range2\<rparr>)))"

subsection \<open>\<^verbatim>\<open>extractAbnormalFromText\<close>\<close>

definition normalizeLine :: "string \<Rightarrow> string" where
  "normalizeLine line =
     trim (replaceAll False (plus1 space) '' ''
             (replaceAll False (plus1 (Chr False [CHR 0x09])) '' '' line))"

definition keepLine :: "string \<Rightarrow> bool" where
  "keepLine line \<longleftrightarrow> line \<noteq> [] \<and> \<not> regexTest False SEPARATOR_LINE line \<and> 3 < length line"

definition cleanLines :: "string \<Rightarrow> string list" where
  "cleanLines text = filter keepLine (map normalizeLine (regexSplit False LINE_BREAK text))"

text \<open>Strategy 1: every line on its own, with its neighbours for a labelled range.\<close>

fun lineFindings :: "string \<Rightarrow> string list \<Rightarrow> finding list" where
  "lineFindings prevLine [] = []"
| "lineFindings prevLine (line # rest) =
     (if regexTest True HEADER_LINE line \<and> \<not> hasDigit line then lineFindings line rest
      else if \<not> hasDigit line then lineFindings line rest
      else (case extractTestDataFromLine line (case rest of [] \<Rightarrow> [] | n # ns \<Rightarrow> n) prevLine of
              None \<Rightarrow> lineFindings line rest
            | Some extracted \<Rightarrow>
                if flag extracted \<noteq> [] \<and> \<not> regexTest True NORMAL_REGEX (flag extracted)
                then extracted # lineFindings line rest
                else lineFindings line rest))"

text \<open>Strategy 2: lines gathered in a buffer until the joined text holds a flag, a normal
  result or more than 180 characters.\<close>

fun bufferRows :: "string list \<Rightarrow> string list \<Rightarrow> string list" where
  "bufferRows buffer [] = []"
| "bufferRows buffer (line # rest) =
     (if \<not> hasDigit line \<and> buffer = [] then bufferRows [line] rest
      else
        (let buffer' = buffer @ [line];
             joined = trim (joinWith '' '' buffer')
         in if regexTest True FLAG_REGEX joined \<or> regexTest True NORMAL_REGEX joined \<or>
               180 < length joined
            then (if regexTest True FLAG_REGEX joined \<and> \<not> regexTest True NORMAL_REGEX joined
                  then joined # bufferRows [] rest
                  else bufferRows [] rest)
            else bufferRows buffer' rest))"

definition sameTest :: "finding \<Rightarrow> finding \<Rightarrow> bool" where
  "sameTest f g \<longleftrightarrow> trim (toLowerCase (test f)) = trim (toLowerCase (test g))"

fun addRowFindings :: "string \<Rightarrow> string list \<Rightarrow> finding list \<Rightarrow> finding list" where
  "addRowFindings lastTest [] findings = findings"
| "addRowFindings lastTest (row # rows) findings =
     (case parseAbnormalRow row lastTest of
        None \<Rightarrow> addRowFindings lastTest rows findings
      | Some parsed \<Rightarrow>
          addRowFindings (test parsed) rows
            (if \<exists>f\<in>set findings. sameTest f parsed then findings else findings @ [parsed]))"

definition extractAbnormalFromText :: "string \<Rightarrow> finding list" where
  "extractAbnormalFromText text =
     (let cleanedLines = cleanLines text
      in addRowFindings [] (bufferRows [] cleanedLines) (lineFindings [] cleanedLines))"

subsection \<open>Notions used to state that findings are never empty\<close>

definition fieldsOk :: "lineFields \<Rightarrow> bool" where
  "fieldsOk fs \<longleftrightarrow>
     (lfTest fs = [] \<or> trim (lfTest fs) \<noteq> []) \<and> (lfValue fs = [] \<or> trim (lfValue fs) \<noteq> [])"

section \<open>Findings of a report: the AI's values merged with the extracted ones\<close>

text \<open>
  The part of \<^verbatim>\<open>interpretReport\<close> that builds \<^verbatim>\<open>abnormalFindings\<close>, up to the merge with the
  findings extracted from the text.  A field of an AI entry other than \<^verbatim>\<open>value\<close> is read as
  text: a field that is not a string counts as absent.
\<close>

text \<open>\<^verbatim>\<open>String(v)\<close>\<close>

fun String_of :: "json \<Rightarrow> string" where
  "String_of JNull = ''null''"
| "String_of (JBool b) = (if b then ''true'' else ''false'')"
| "String_of (JNum n) = intToString n"
| "String_of (JStr s) = s"
| "String_of (JArr xs) = joinWith '','' (map (\<lambda>x. if x = JNull then [] else String_of x) xs)"
| "String_of (JObj kvs) = ''[object Object]''"

definition textField :: "json jsobj \<Rightarrow> string \<Rightarrow> string" where
  "textField v k = (case obj_get v k of Some (JStr s) \<Rightarrow> s | _ \<Rightarrow> [])"

text \<open>\<^verbatim>\<open>v.a || v.b || ... || ''\<close>\<close>

definition firstField :: "json jsobj \<Rightarrow> string list \<Rightarrow> string" where
  "firstField v ks = (case filter (\<lambda>s. s \<noteq> []) (map (textField v) ks) of [] \<Rightarrow> [] | s # ss \<Rightarrow> s)"

text \<open>\<^verbatim>\<open>v.value ? String(v.value) : ''\<close>\<close>

definition valueField :: "json jsobj \<Rightarrow> string" where
  "valueField v =
     (case obj_get v ''value'' of
        None \<Rightarrow> []
      | Some x \<Rightarrow> if truthy x then String_of x else [])"

text \<open>\<^verbatim>\<open>/(\d+\.?\d*)\s*[-\u2013\u2014to]\s*(\d+\.?\d*)/i\<close>\<close>

definition INTERPRETATION_RANGE :: regex where
  "INTERPRETATION_RANGE =
     Seq (Group 1 looseNumber) (Seq (Star space) (Seq dashOrTo (Seq (Star space) (Group 2 looseNumber))))"

definition normalizeAbnormal :: "json jsobj \<Rightarrow> finding" where
  "normalizeAbnormal v =
     (let given = firstField v [''reference_range'', ''referenceRange'', ''range'', ''reference'',
                                ''ref_range''];
          range = (if given = [] \<and> textField v ''interpretation'' \<noteq> [] then
                     (case regexMatch True INTERPRETATION_RANGE (textField v ''interpretation'') of
                        None \<Rightarrow> given
                      | Some rangeMatch \<Rightarrow> rangeText rangeMatch)
                   else given)
      in \<lparr>test = firstField v [''test'', ''name''],
          val = valueField v,
          unit = firstField v [''unit'', ''units''],
          referenceRange = range,
          flag = firstField v [''flag'', ''status''],
          severity = firstField v [''severity'', ''level''],
          interpretationText = firstField v [''interpretation'', ''meaning'']\<rparr>)"

text \<open>The \<^verbatim>\<open>map\<close> over \<^verbatim>\<open>result.abnormal_values\<close>: reading a property of \<^verbatim>\<open>null\<close> throws, a
  value that is no object has none of the properties.\<close>

fun normalizeEntries :: "json list \<Rightarrow> js_error + finding list" where
  "normalizeEntries [] = Inr []"
| "normalizeEntries (v # vs) =
     (if v = JNull then Inl TypeError
      else (case normalizeEntries vs of
              Inl e \<Rightarrow> Inl e
            | Inr fs \<Rightarrow> Inr (normalizeAbnormal (case v of JObj kvs \<Rightarrow> kvs | _ \<Rightarrow> []) # fs)))"

definition normalizeAbnormalValues :: "json option \<Rightarrow> js_error + finding list" where
  "normalizeAbnormalValues abnormal_values =
     (case abnormal_values of Some (JArr vs) \<Rightarrow> normalizeEntries vs | _ \<Rightarrow> Inr [])"

text \<open>The test of the \<^verbatim>\<open>find\<close> callback.\<close>

definition matchesTest :: "finding \<Rightarrow> finding \<Rightarrow> bool" where
  "matchesTest extracted f \<longleftrightarrow>
     test f \<noteq> [] \<and> test extracted \<noteq> [] \<and>
     trim (toLowerCase (test f)) = trim (toLowerCase (test extracted))"

definition patched :: "finding \<Rightarrow> finding \<Rightarrow> finding" where
  "patched extracted existing =
     (if referenceRange extracted \<noteq> [] \<and> referenceRange existing = []
      then existing\<lparr>referenceRange := referenceRange extracted\<rparr>
      else existing)"

text \<open>The first finding that matches is patched; \<open>None\<close> when none matches.\<close>

fun patchFirst :: "finding \<Rightarrow> finding list \<Rightarrow> finding list option" where
  "patchFirst extracted [] = None"
| "patchFirst extracted (f # fs) =
     (if matchesTest extracted f then Some (patched extracted f # fs)
      else map_option (\<lambda>fs'. f # fs') (patchFirst extracted fs))"

definition mergeStep :: "finding \<Rightarrow> finding list \<Rightarrow> finding list" where
  "mergeStep extracted mergedFindings =
     (case patchFirst extracted mergedFindings of
        Some fs \<Rightarrow> fs
      | None \<Rightarrow> mergedFindings @ [extracted])"

definition mergeFindings :: "finding list \<Rightarrow> finding list \<Rightarrow> finding list" where
  "mergeFindings abnormalFindings fallbackFindings = fold mergeStep fallbackFindings abnormalFindings"

definition reportFindings :: "json option \<Rightarrow> string \<Rightarrow> js_error + finding list" where
  "reportFindings abnormal_values parsedText =
     (case normalizeAbnormalValues abnormal_values of
        Inl e \<Rightarrow> Inl e
      | Inr abnormalFindings \<Rightarrow>
          Inr (mergeFindings abnormalFindings (extractAbnormalFromText parsedText)))"

subsection \<open>Notions used to state the merge\<close>


definition stripRange :: "finding \<Rightarrow> finding" where
  "stripRange f = f\<lparr>referenceRange := []\<rparr>"


section \<open>Concrete inputs used by the witnesses\<close>

definition exampleParse :: "string \<Rightarrow> json option" where
  \<open>exampleParse s =
     map_of [(''{"severity":"high"}'', JObj [(''severity'', JStr ''high'')]),
             (''{"severity":"low"}'', JObj [(''severity'', JStr ''low'')]),
             (''{"a":[1,2]}'', JObj [(''a'', JArr [JNum 1, JNum 2])]),
             (''{"a":[2,3]}'', JObj [(''a'', JArr [JNum 2, JNum 3])]),
             (''{"a":1}'', JObj [(''a'', JNum 1)]),
             (''{"a":2,"b":7}'', JObj [(''a'', JNum 2), (''b'', JNum 7)]),
             (''{"a":[1]}'', JObj [(''a'', JArr [JNum 1])]),
             (''{"a":["1"]}'', JObj [(''a'', JArr [JStr ''1''])]),
             (''["Anemia"]'', JArr [JStr ''Anemia'']),
             (''{"length":5}'', JObj [(''length'', JNum 5)])] s\<close>

definition exampleResponse :: "string \<Rightarrow> string \<Rightarrow> response" where
  "exampleResponse who c = \<lparr>provider = who, model = ''m'', content = c\<rparr>"

definition exHigh :: response where
  \<open>exHigh = exampleResponse ''openrouter'' ''Result: {"severity":"high"}''\<close>

definition exLow :: response where
  \<open>exLow = exampleResponse ''groq'' ''{"severity":"low"}''\<close>

definition exA12 :: response where
  \<open>exA12 = exampleResponse ''openrouter'' ''{"a":[1,2]}''\<close>

definition exA23 :: response where
  \<open>exA23 = exampleResponse ''groq'' ''{"a":[2,3]} (end)''\<close>

definition exA1 :: response where
  \<open>exA1 = exampleResponse ''openrouter'' ''{"a":1}''\<close>

definition exA2B7 :: response where
  \<open>exA2B7 = exampleResponse ''groq'' ''{"a":2,"b":7}''\<close>

definition exNumberOne :: response where
  \<open>exNumberOne = exampleResponse ''openrouter'' ''{"a":[1]}''\<close>

definition exStringOne :: response where
  \<open>exStringOne = exampleResponse ''groq'' ''{"a":["1"]}''\<close>

definition exAnemiaArray :: response where
  \<open>exAnemiaArray = exampleResponse ''openrouter'' ''["Anemia"]''\<close>

definition exLength :: response where
  \<open>exLength = exampleResponse ''groq'' ''{"length":5}''\<close>

definition exEnv :: env where
  "exEnv = map_of [(''GEMINI_API_KEY'', ''AIzaSy-example''), (''GROQ_API_KEY'', ''gsk_example''),
                   (''OPENAI_API_KEY'', ''sk-example'')]"

definition exOpts :: generateOptions where
  "exOpts = \<lparr>preferredProviders = [], genTemperature = None, genMaxTokens = None, genModel = None\<rparr>"

definition exCallLast :: "nat \<Rightarrow> string \<Rightarrow> callOptions \<Rightarrow> thrown + string" where
  "exCallLast i n opts = (if i < 2 then Inl (newError ''503 unavailable'') else Inr ''answer'')"

definition exCallNone :: "nat \<Rightarrow> string \<Rightarrow> callOptions \<Rightarrow> thrown + string" where
  "exCallNone i n opts = Inl (newError ''503 unavailable'')"

text \<open>Every call throws an error whose message is empty.\<close>

definition exCallSilent :: "nat \<Rightarrow> string \<Rightarrow> callOptions \<Rightarrow> thrown + string" where
  "exCallSilent i n opts = Inl (newError [])"

text \<open>Both \<^verbatim>\<open>GEMINI_API_KEY\<close> and \<^verbatim>\<open>PERPLEXITY_API_KEY\<close> hold OpenRouter keys, and the
  caller names the model, as the statistics request of the report route does.\<close>

definition exTwoRouterEnv :: env where
  "exTwoRouterEnv = map_of [(''GEMINI_API_KEY'', ''sk-or-v1-first''),
                            (''PERPLEXITY_API_KEY'', ''sk-or-v1-second'')]"

definition exStatisticsOpts :: generateOptions where
  "exStatisticsOpts =
     \<lparr>preferredProviders = [''openrouter''], genTemperature = Some (1 / 10),
      genMaxTokens = Some 4000,
      genModel = Some ''perplexity/llama-3.1-sonar-large-32k-online''\<rparr>"

definition exCallOptions :: callOptions where
  "exCallOptions = \<lparr>temperature = Some 5, maxTokens = Some (- 7), optModel = None\<rparr>"

definition exRouterEnv :: env where
  "exRouterEnv = map_of [(''GEMINI_API_KEY'', ''sk-or-v1-example'')]"


text \<open>The first model is unknown (404); every fallback model answers with three blanks,
  except \<^verbatim>\<open>google/gemini-pro\<close>.\<close>

definition exFallbackFetch :: "nat \<Rightarrow> chatRequest \<Rightarrow> httpOutcome" where
  "exFallbackFetch i req =
     (if i = 0 then Http 404 (ErrorText ''no such model'') (BodyContent None)
      else if reqModel req = ''google/gemini-pro''
        then Http 200 (ErrorText []) (BodyContent (Some ''{}''))
      else Http 200 (ErrorText []) (BodyContent (Some ''   '')))"


text \<open>The first model is unknown; the fallback models answer.\<close>

definition exFallbackGeneration :: "nat \<Rightarrow> promptRequest \<Rightarrow> generation" where
  "exFallbackGeneration i req =
     (if i = 0 then GenerationThrows (newError ''404 model not found'')
      else if i = 1 then GenerationText ''  ''
      else GenerationText ''{}'')"



definition exBlankCompletion :: "nat \<Rightarrow> chatRequest \<Rightarrow> completion" where
  "exBlankCompletion i req = Completion (Some ''   '')"





definition hemoglobinLine :: string where
  "hemoglobinLine = ''Hemoglobin 9.2 g/dL 12.0-15.5 Low''"

definition glucoseLine :: string where
  "glucoseLine = ''Glucose 95 mg/dL 70-100 Normal''"

definition hemoglobinRow :: string where
  "hemoglobinRow = ''Hemoglobin | 9.2 | g/dL | 12.0-15.5 | Low''"





lemma map_of_obj_update:
  "map_of (obj_update k v obj) x = (if x = k \<and> map_of obj k \<noteq> None then Some v else map_of obj x)"
  by (induction obj) auto

lemma map_of_obj_insert_index:
  "map_of obj k = None \<Longrightarrow> map_of (obj_insert_index n k v obj) x = (if x = k then Some v else map_of obj x)"
  by (induction obj) (auto split: option.splits if_splits)

lemma obj_get_obj_set: "obj_get (obj_set k v obj) k' = (if k' = k then Some v else obj_get obj k')"
proof (cases "map_of obj k")
  case None
  then have "k \<notin> set (obj_keys obj)" by (simp add: obj_keys_def map_of_eq_None_iff)
  then show ?thesis using None
    by (cases "arrayIndex k") (auto simp: obj_get_def obj_set_def map_of_obj_insert_index map_add_def split: option.splits)
next
  case (Some a)
  then have "k \<in> set (obj_keys obj)"
    by (metis obj_keys_def map_of_eq_None_iff option.distinct(1) set_map)
  then show ?thesis using Some
    by (simp add: obj_get_def obj_set_def map_of_obj_update)
qed

lemma keys_obj_update: "map fst (obj_update k v obj) = map fst obj"
  by (induction obj) auto

lemma set_keys_obj_insert_index: "fst ` set (obj_insert_index n k v obj) = insert k (fst ` set obj)"
  by (induction obj) (force split: option.splits)+

lemma set_obj_keys_obj_set: "set (obj_keys (obj_set k v obj)) = insert k (set (obj_keys obj))"
proof (cases "k \<in> set (obj_keys obj)")
  case True
  then show ?thesis by (auto simp: obj_set_def obj_keys_def keys_obj_update)
next
  case False
  then show ?thesis
    by (cases "arrayIndex k") (simp_all add: obj_set_def obj_keys_def set_keys_obj_insert_index)
qed

lemma distinct_obj_insert_index:
  "distinct (map fst obj) \<Longrightarrow> k \<notin> fst ` set obj \<Longrightarrow> distinct (map fst (obj_insert_index n k v obj))"
proof (induction obj)
  case Nil
  then show ?case by simp
next
  case (Cons a obj)
  then have IH: "distinct (map fst (obj_insert_index n k v obj))" by simp
  have notin: "fst a \<notin> set (map fst (obj_insert_index n k v obj))"
    using Cons.prems by (simp add: set_keys_obj_insert_index) blast
  show ?case using Cons.prems IH notin
    by (cases a) (auto split: option.splits)
qed

lemma distinct_obj_set: "distinct (obj_keys obj) \<Longrightarrow> distinct (obj_keys (obj_set k v obj))"
proof (cases "k \<in> set (obj_keys obj)")
  case True
  assume "distinct (obj_keys obj)"
  then show ?thesis using True by (simp add: obj_set_def obj_keys_def keys_obj_update)
next
  case False
  assume "distinct (obj_keys obj)"
  then show ?thesis using False
    by (cases "arrayIndex k") (simp_all add: obj_set_def obj_keys_def distinct_obj_insert_index)
qed


lemma obj_get_None_iff: "obj_get obj k = None \<longleftrightarrow> k \<notin> set (obj_keys obj)"
  by (simp add: obj_get_def obj_keys_def map_of_eq_None_iff)

lemma obj_get_Nil [simp]: "obj_get [] k = None"
  by (simp add: obj_get_def)

lemma obj_set_nonempty: "obj_set k v obj \<noteq> []"
  using set_obj_keys_obj_set [of k v obj] by (auto simp: obj_keys_def)

lemma castVote_inherited:
  "key \<in> set objectPrototypeNames \<Longrightarrow> key \<notin> set (obj_keys fv) \<Longrightarrow>
   castVote src obj key fv = fv"
  by (simp add: castVote_def split: option.splits)

lemma votesOf_castVote:
  "key \<notin> set objectPrototypeNames \<Longrightarrow>
   votesOf (castVote src obj key fv) k s =
     votesOf fv k s + (if k = key \<and> map_option stringify (getProp obj key) = Some s then 1 else 0)"
  by (cases "getProp obj key")
     (auto simp: castVote_def votesOf_def Let_def obj_get_obj_set split: option.splits)

lemma votesInv_castVote:
  assumes "votesInv fv"
  shows "votesInv (castVote src obj key fv)"
proof (cases "getProp obj key")
  case None
  then show ?thesis using assms by (simp add: castVote_def)
next
  case (Some v)
  show ?thesis
  proof (cases "key \<in> set objectPrototypeNames")
    case True
    then have "key \<notin> set (obj_keys fv)" using assms by (auto simp: votesInv_def)
    then show ?thesis using True assms by (simp add: castVote_inherited)
  next
    case False
    define inner where "inner = (case obj_get fv key of None \<Rightarrow> [] | Some i \<Rightarrow> i)"
    define e where "e = (case obj_get inner (stringify v) of
                        None \<Rightarrow> \<lparr>count = 0, voteValue = v, sources = []\<rparr>
                      | Some e \<Rightarrow> e)"
    define inner' where
      "inner' = obj_set (stringify v) (e\<lparr>count := Suc (count e), sources := sources e @ [src]\<rparr>) inner"
    have cv: "castVote src obj key fv = obj_set key inner' fv"
      using Some False by (simp add: castVote_def Let_def inner_def e_def inner'_def)
    have dinner: "distinct (obj_keys inner)"
      using assms by (auto simp: inner_def votesInv_def obj_keys_def split: option.splits)
    have cinner: "\<And>s x. obj_get inner s = Some x \<Longrightarrow> 1 \<le> count x"
      using assms by (auto simp: inner_def votesInv_def obj_get_def split: option.splits)
    have i1: "inner' \<noteq> []" by (simp add: inner'_def obj_set_nonempty)
    have i2: "distinct (obj_keys inner')" using dinner by (simp add: inner'_def distinct_obj_set)
    have i3: "\<And>s x. obj_get inner' s = Some x \<Longrightarrow> 1 \<le> count x"
      using cinner by (auto simp: inner'_def obj_get_obj_set split: if_splits)
    have k: "set (obj_keys (obj_set key inner' fv)) \<inter> set objectPrototypeNames = {}"
      using assms False by (auto simp: votesInv_def set_obj_keys_obj_set)
    have d: "distinct (obj_keys (obj_set key inner' fv))"
      using assms by (simp add: votesInv_def distinct_obj_set)
    have r: "\<And>key' inner''. obj_get (obj_set key inner' fv) key' = Some inner'' \<Longrightarrow>
        inner'' \<noteq> [] \<and> distinct (obj_keys inner'') \<and>
        (\<forall>s e. obj_get inner'' s = Some e \<longrightarrow> 1 \<le> count e)"
      using assms i1 i2 i3 by (auto simp: votesInv_def obj_get_obj_set split: if_splits)
    show ?thesis
      unfolding cv votesInv_def using d k r by blast
  qed
qed

lemma fold_castVote:
  "distinct ks \<Longrightarrow> votesInv fv \<Longrightarrow>
     votesInv (fold (castVote src obj) ks fv) \<and>
     (\<forall>k s. k \<notin> set objectPrototypeNames \<longrightarrow>
        votesOf (fold (castVote src obj) ks fv) k s =
        votesOf fv k s + (if k \<in> set ks \<and> map_option stringify (getProp obj k) = Some s then 1 else 0))"
proof (induction ks arbitrary: fv)
  case Nil
  then show ?case by simp
next
  case (Cons a ks)
  have inv: "votesInv (castVote src obj a fv)" using Cons.prems by (simp add: votesInv_castVote)
  have d: "distinct ks" and na: "a \<notin> set ks" using Cons.prems by simp_all
  note ih = Cons.IH [OF d inv]
  show ?case
  proof (cases "a \<in> set objectPrototypeNames")
    case True
    then have "a \<notin> set (obj_keys fv)" using Cons.prems(2) by (auto simp: votesInv_def)
    then have same: "castVote src obj a fv = fv" using True by (simp add: castVote_inherited)
    have g: "fold (castVote src obj) (a # ks) fv = fold (castVote src obj) ks fv"
      by (simp add: same)
    note ih' = ih [unfolded same]
    show ?thesis unfolding g using ih' True by auto
  next
    case False
    show ?thesis using ih na False by (auto simp: votesOf_castVote)
  qed
qed

lemma agreeing_Cons:
  "agreeing (p # ps) k s =
     (if k \<in> set (Object_keys p) \<and> map_option stringify (getProp p k) = Some s then 1 else 0)
     + agreeing ps k s"
  by (simp add: agreeing_def)

lemma countVotes_ok:
  "idx + length parsed \<le> length responses \<Longrightarrow> \<forall>p\<in>set parsed. distinct (Object_keys p) \<Longrightarrow>
   votesInv fv \<Longrightarrow>
   \<exists>fv'. countVotes responses idx parsed fv = Inr fv' \<and> votesInv fv' \<and>
         (\<forall>k s. k \<notin> set objectPrototypeNames \<longrightarrow>
            votesOf fv' k s = votesOf fv k s + agreeing parsed k s)"
proof (induction parsed arbitrary: idx fv)
  case Nil
  then show ?case by (simp add: agreeing_def)
next
  case (Cons p ps)
  have len: "Suc idx + length ps \<le> length responses" and lt: "idx < length responses"
    using Cons.prems(1) by simp_all
  have dps: "\<forall>q\<in>set ps. distinct (Object_keys q)" and dp: "distinct (Object_keys p)"
    using Cons.prems(2) by simp_all
  show ?case
  proof (cases "Object_keys p = []")
    case True
    from Cons.IH [OF len dps Cons.prems(3)] show ?thesis
      using True by (auto simp: agreeing_Cons)
  next
    case False
    define fv1 where "fv1 = fold (castVote (provider (responses ! idx)) p) (Object_keys p) fv"
    have f: "votesInv fv1 \<and> (\<forall>k s. k \<notin> set objectPrototypeNames \<longrightarrow> votesOf fv1 k s =
        votesOf fv k s + (if k \<in> set (Object_keys p) \<and> map_option stringify (getProp p k) = Some s then 1 else 0))"
      unfolding fv1_def using fold_castVote [OF dp Cons.prems(3)] by blast
    then have inv1: "votesInv fv1" by blast
    from Cons.IH [OF len dps inv1] obtain fv' where
      r: "countVotes responses (Suc idx) ps fv1 = Inr fv'" and i: "votesInv fv'"
      and v: "\<forall>k s. k \<notin> set objectPrototypeNames \<longrightarrow>
                votesOf fv' k s = votesOf fv1 k s + agreeing ps k s" by blast
    have "countVotes responses idx (p # ps) fv = Inr fv'"
      using False lt r by (simp add: fv1_def)
    moreover have "\<forall>k s. k \<notin> set objectPrototypeNames \<longrightarrow>
        votesOf fv' k s = votesOf fv k s + agreeing (p # ps) k s"
      using v f by (simp add: agreeing_Cons)
    ultimately show ?thesis using i by blast
  qed
qed

lemma votesOf_absent: "key \<notin> set (obj_keys fv) \<Longrightarrow> votesOf fv key s = 0"
  using obj_get_None_iff [of fv key] by (simp add: votesOf_def)


lemma sortVotes_hd:
  assumes "sortVotes vs = best # others"
  shows "best \<in> set vs \<and> (\<forall>v\<in>set vs. count v \<le> count best)"
proof -
  have s: "set (sortVotes vs) = set vs" by (simp add: sortVotes_def)
  have "sorted (map (\<lambda>v. - int (count v)) (sortVotes vs))" by (simp add: sortVotes_def)
  then have "\<forall>v\<in>set others. - int (count best) \<le> - int (count v)"
    using assms by simp
  then have "\<forall>v\<in>set (sortVotes vs). count v \<le> count best" using assms by auto
  then show ?thesis using s assms by auto
qed

lemma sortVotes_Nil: "sortVotes vs = [] \<longleftrightarrow> vs = []"
  by (metis sortVotes_def set_empty set_sort)

lemma votesInv_lookup:
  assumes "votesInv fv" and "key \<in> set (obj_keys fv)"
  shows "\<exists>inner. obj_get fv key = Some inner \<and> inner \<noteq> [] \<and> distinct (obj_keys inner)"
proof -
  from assms(2) obtain inner where "obj_get fv key = Some inner"
    using obj_get_None_iff [of fv key] by (cases "obj_get fv key") auto
  then show ?thesis using assms(1) by (auto simp: votesInv_def)
qed

lemma value_lookup:
  assumes "distinct (obj_keys inner)" and "e \<in> set (obj_values inner)"
  shows "\<exists>s. obj_get inner s = Some e"
proof -
  from assms(2) obtain s where "(s, e) \<in> set inner" by (auto simp: obj_values_def)
  then have "map_of inner s = Some e" using assms(1) by (simp add: obj_keys_def)
  then show ?thesis by (auto simp: obj_get_def)
qed

lemma selectField_ok:
  assumes "votesInv fv" and "key \<in> set (obj_keys fv)" and "parsed \<noteq> []"
  shows "\<exists>m'. selectField parsed fv key m = Inr m' \<and>
              set (obj_keys m') \<subseteq> insert key (set (obj_keys m))"
proof -
  from votesInv_lookup [OF assms(1,2)] obtain inner where
    i: "obj_get fv key = Some inner" "inner \<noteq> []" by blast
  then have "sortVotes (obj_values inner) \<noteq> []" by (simp add: sortVotes_Nil obj_values_def)
  then obtain best others where b: "sortVotes (obj_values inner) = best # others"
    by (cases "sortVotes (obj_values inner)") auto
  obtain p ps where p: "parsed = p # ps" using assms(3) by (cases parsed) auto
  show ?thesis
    using i b p by (auto simp: selectField_def set_obj_keys_obj_set split: option.splits)
qed

lemma selectField_absent:
  assumes "votesInv fv" and "key \<in> set (obj_keys fv)" and "\<forall>s. votesOf fv key s < 2"
    and "2 \<le> length parsed" and "getProp (hd parsed) key = None"
  shows "selectField parsed fv key m = Inr m"
proof -
  from votesInv_lookup [OF assms(1,2)] obtain inner where
    i: "obj_get fv key = Some inner" "inner \<noteq> []" "distinct (obj_keys inner)" by blast
  then have "sortVotes (obj_values inner) \<noteq> []" by (simp add: sortVotes_Nil obj_values_def)
  then obtain best others where b: "sortVotes (obj_values inner) = best # others"
    by (cases "sortVotes (obj_values inner)") auto
  then have "best \<in> set (obj_values inner)" using sortVotes_hd by blast
  with value_lookup [OF i(3)] obtain s where s: "obj_get inner s = Some best" by blast
  then have "votesOf fv key s = count best" using i(1) by (simp add: votesOf_def)
  then have c: "count best < 2" using assms(3) by metis
  obtain p ps where p: "parsed = p # ps" using assms(4) by (cases parsed) auto
  show ?thesis using i b c p assms(4,5) by (auto simp: selectField_def)
qed

lemma selectFields_ok:
  "votesInv fv \<Longrightarrow> set ks \<subseteq> set (obj_keys fv) \<Longrightarrow> parsed \<noteq> [] \<Longrightarrow>
   \<exists>m'. selectFields parsed fv ks m = Inr m'"
proof (induction ks arbitrary: m)
  case Nil
  then show ?case by simp
next
  case (Cons k ks)
  from selectField_ok [OF Cons.prems(1) _ Cons.prems(3), of k m] Cons.prems(2)
  obtain m1 where m1: "selectField parsed fv k m = Inr m1" by auto
  from Cons.IH [OF Cons.prems(1) _ Cons.prems(3), of m1] Cons.prems(2)
  show ?case using m1 by auto
qed

lemma selectFields_absent:
  "votesInv fv \<Longrightarrow> set ks \<subseteq> set (obj_keys fv) \<Longrightarrow> 2 \<le> length parsed \<Longrightarrow>
   \<forall>s. votesOf fv key s < 2 \<Longrightarrow> getProp (hd parsed) key = None \<Longrightarrow>
   key \<notin> set (obj_keys m) \<Longrightarrow> selectFields parsed fv ks m = Inr m' \<Longrightarrow>
   key \<notin> set (obj_keys m')"
proof (induction ks arbitrary: m)
  case Nil
  then show ?case by simp
next
  case (Cons k ks)
  have ne: "parsed \<noteq> []" using Cons.prems(3) by auto
  have kin: "k \<in> set (obj_keys fv)" and sub: "set ks \<subseteq> set (obj_keys fv)"
    using Cons.prems(2) by simp_all
  from selectField_ok [OF Cons.prems(1) kin ne, of m]
  obtain m1 where m1: "selectField parsed fv k m = Inr m1"
    and keys: "set (obj_keys m1) \<subseteq> insert k (set (obj_keys m))" by blast
  have notin: "key \<notin> set (obj_keys m1)"
  proof (cases "k = key")
    case True
    then have "selectField parsed fv k m = Inr m"
      using selectField_absent [OF Cons.prems(1) _ Cons.prems(4) Cons.prems(3) Cons.prems(5)] kin
      by simp
    then show ?thesis using m1 Cons.prems(6) by simp
  next
    case False
    then show ?thesis using keys Cons.prems(6) by auto
  qed
  have "selectFields parsed fv ks m1 = Inr m'" using Cons.prems(7) m1 by simp
  from Cons.IH [OF Cons.prems(1) sub Cons.prems(3) Cons.prems(4) Cons.prems(5) notin this]
  show ?case .
qed

lemma keys_mergeArrayField: "set (obj_keys (mergeArrayField parsed key m)) = set (obj_keys m)"
proof (cases "obj_get m key")
  case None
  then show ?thesis by (simp add: mergeArrayField_def)
next
  case (Some v)
  then have "key \<in> set (obj_keys m)" using obj_get_None_iff [of m key] by auto
  then show ?thesis using Some
    by (cases v) (auto simp: mergeArrayField_def set_obj_keys_obj_set)
qed

lemma keys_fold_mergeArrayField:
  "set (obj_keys (fold (mergeArrayField parsed) ks m)) = set (obj_keys m)"
  by (induction ks arbitrary: m) (simp_all add: keys_mergeArrayField)

lemma keys_mergeArrays: "set (obj_keys (mergeArrays parsed m)) = set (obj_keys m)"
  by (simp add: mergeArrays_def keys_fold_mergeArrayField)

lemma votesInv_Nil: "votesInv []"
  by (simp add: votesInv_def obj_keys_def)

lemma getProp_object: "getProp (JObj kvs) key = None \<longleftrightarrow> key \<notin> set (obj_keys kvs)"
  by (simp add: getProp_def obj_get_None_iff)

lemma votesOf_Nil: "votesOf [] k s = 0"
  by (simp add: votesOf_def)

lemma length_parseResponses: "length (parseResponses JSON_parse responses) \<le> length responses"
  unfolding parseResponses_def
  by (metis length_filter_le length_map)

section \<open>Consensus synthesis: the majority value and the union of sequences\<close>

lemma valuesInv_Nil: "valuesInv parsed []"
  by (simp add: valuesInv_def)

lemma valuesInv_castVote:
  assumes "valuesInv parsed fv" and "obj \<in> set parsed" and "key \<in> set (Object_keys obj)"
  shows "valuesInv parsed (castVote src obj key fv)"
proof (cases "getProp obj key")
  case None
  then show ?thesis using assms(1) by (simp add: castVote_def)
next
  case (Some v)
  show ?thesis
  proof (cases "key \<notin> set (obj_keys fv) \<and> key \<in> set objectPrototypeNames")
    case True
    then show ?thesis using assms(1) Some by (simp add: castVote_def)
  next
    case False
    define inner where "inner = (case obj_get fv key of None \<Rightarrow> [] | Some i \<Rightarrow> i)"
    define e where "e = (case obj_get inner (stringify v) of
                        None \<Rightarrow> \<lparr>count = 0, voteValue = v, sources = []\<rparr>
                      | Some e \<Rightarrow> e)"
    define inner' where
      "inner' = obj_set (stringify v) (e\<lparr>count := Suc (count e), sources := sources e @ [src]\<rparr>) inner"
    have cv: "castVote src obj key fv = obj_set key inner' fv"
      using Some False by (auto simp: castVote_def Let_def inner_def e_def inner'_def)
    have c: "carried parsed key v" using assms(2,3) Some by (auto simp: carried_def)
    have ie: "\<And>s x. obj_get inner s = Some x \<Longrightarrow>
        stringify (voteValue x) = s \<and> carried parsed key (voteValue x)"
      using assms(1) by (auto simp: inner_def valuesInv_def split: option.splits)
    have ev: "stringify (voteValue e) = stringify v \<and> carried parsed key (voteValue e)"
      using ie c by (auto simp: e_def split: option.splits)
    have i': "\<And>s x. obj_get inner' s = Some x \<Longrightarrow>
        stringify (voteValue x) = s \<and> carried parsed key (voteValue x)"
      using ie ev by (auto simp: inner'_def obj_get_obj_set split: if_splits)
    show ?thesis
      unfolding cv valuesInv_def
    proof (intro allI impI)
      fix key' inner'' s x
      assume a: "obj_get (obj_set key inner' fv) key' = Some inner''"
        and b: "obj_get inner'' s = Some x"
      show "stringify (voteValue x) = s \<and> carried parsed key' (voteValue x)"
      proof (cases "key' = key")
        case True
        then have "inner'' = inner'" using a by (simp add: obj_get_obj_set)
        then show ?thesis using i' b True by blast
      next
        case False
        then have "obj_get fv key' = Some inner''" using a by (simp add: obj_get_obj_set)
        then show ?thesis using assms(1) b unfolding valuesInv_def by blast
      qed
    qed
  qed
qed

lemma valuesInv_fold_castVote:
  "valuesInv parsed fv \<Longrightarrow> obj \<in> set parsed \<Longrightarrow> set ks \<subseteq> set (Object_keys obj) \<Longrightarrow>
   valuesInv parsed (fold (castVote src obj) ks fv)"
proof (induction ks arbitrary: fv)
  case Nil
  then show ?case by simp
next
  case (Cons k ks)
  have "valuesInv parsed (castVote src obj k fv)"
    using Cons.prems by (simp add: valuesInv_castVote)
  then show ?case using Cons.IH Cons.prems by simp
qed

lemma valuesInv_countVotes:
  "valuesInv parsed fv \<Longrightarrow> set ps \<subseteq> set parsed \<Longrightarrow>
   countVotes responses idx ps fv = Inr fv' \<Longrightarrow> valuesInv parsed fv'"
proof (induction ps arbitrary: idx fv)
  case Nil
  then show ?case by simp
next
  case (Cons p ps)
  have sub: "set ps \<subseteq> set parsed" and pin: "p \<in> set parsed" using Cons.prems(2) by simp_all
  show ?case
  proof (cases "Object_keys p = []")
    case True
    then have "countVotes responses (Suc idx) ps fv = Inr fv'" using Cons.prems(3) by simp
    from Cons.IH [OF Cons.prems(1) sub this] show ?thesis .
  next
    case False
    define fv1 where "fv1 = fold (castVote (provider (responses ! idx)) p) (Object_keys p) fv"
    have inv1: "valuesInv parsed fv1"
      unfolding fv1_def using Cons.prems(1) pin by (simp add: valuesInv_fold_castVote)
    have "countVotes responses (Suc idx) ps fv1 = Inr fv'"
      using Cons.prems(3) False by (simp add: fv1_def split: if_splits)
    from Cons.IH [OF inv1 sub this] show ?thesis .
  qed
qed

lemma selectField_selected:
  assumes "votesInv fv" and "key \<in> set (obj_keys fv)" and "parsed \<noteq> []"
  shows "selectField parsed fv key m =
           Inr (case selected parsed fv key of None \<Rightarrow> m | Some v \<Rightarrow> obj_set key v m)"
proof -
  from votesInv_lookup [OF assms(1,2)] obtain inner where
    i: "obj_get fv key = Some inner" "inner \<noteq> []" by blast
  then have "sortVotes (obj_values inner) \<noteq> []" by (simp add: sortVotes_Nil obj_values_def)
  then obtain best others where b: "sortVotes (obj_values inner) = best # others"
    by (cases "sortVotes (obj_values inner)") auto
  obtain p ps where p: "parsed = p # ps" using assms(3) by (cases parsed) auto
  show ?thesis
    using i b p by (auto simp: selectField_def selected_def split: option.splits)
qed

lemma selectFields_get:
  "votesInv fv \<Longrightarrow> set ks \<subseteq> set (obj_keys fv) \<Longrightarrow> parsed \<noteq> [] \<Longrightarrow>
   selectFields parsed fv ks m = Inr m' \<Longrightarrow>
   obj_get m' key =
     (if key \<in> set ks \<and> selected parsed fv key \<noteq> None then selected parsed fv key
      else obj_get m key)"
proof (induction ks arbitrary: m)
  case Nil
  then show ?case by simp
next
  case (Cons k ks)
  have kin: "k \<in> set (obj_keys fv)" and sub: "set ks \<subseteq> set (obj_keys fv)"
    using Cons.prems(2) by simp_all
  define m1 where "m1 = (case selected parsed fv k of None \<Rightarrow> m | Some v \<Rightarrow> obj_set k v m)"
  have s1: "selectField parsed fv k m = Inr m1"
    unfolding m1_def using Cons.prems(1) kin Cons.prems(3) by (rule selectField_selected)
  then have rest: "selectFields parsed fv ks m1 = Inr m'" using Cons.prems(4) by simp
  have g1: "obj_get m1 key =
      (if k = key \<and> selected parsed fv k \<noteq> None then selected parsed fv k else obj_get m key)"
    by (auto simp: m1_def obj_get_obj_set split: option.splits)
  from Cons.IH [OF Cons.prems(1) sub Cons.prems(3) rest]
  show ?case using g1 by auto
qed

lemma selectFields_distinct:
  "votesInv fv \<Longrightarrow> set ks \<subseteq> set (obj_keys fv) \<Longrightarrow> parsed \<noteq> [] \<Longrightarrow>
   distinct (obj_keys m) \<Longrightarrow> selectFields parsed fv ks m = Inr m' \<Longrightarrow> distinct (obj_keys m')"
proof (induction ks arbitrary: m)
  case Nil
  then show ?case by simp
next
  case (Cons k ks)
  have kin: "k \<in> set (obj_keys fv)" and sub: "set ks \<subseteq> set (obj_keys fv)"
    using Cons.prems(2) by simp_all
  define m1 where "m1 = (case selected parsed fv k of None \<Rightarrow> m | Some v \<Rightarrow> obj_set k v m)"
  have s1: "selectField parsed fv k m = Inr m1"
    unfolding m1_def using Cons.prems(1) kin Cons.prems(3) by (rule selectField_selected)
  then have rest: "selectFields parsed fv ks m1 = Inr m'" using Cons.prems(5) by simp
  have d1: "distinct (obj_keys m1)"
    using Cons.prems(4) by (auto simp: m1_def distinct_obj_set split: option.splits)
  from Cons.IH [OF Cons.prems(1) sub Cons.prems(3) d1 rest] show ?case .
qed

lemma obj_get_mergeArrayField:
  "obj_get (mergeArrayField parsed k m) key =
     (if key = k then map_option (unionIfArray parsed k) (obj_get m k) else obj_get m key)"
proof (cases "obj_get m k")
  case None
  then show ?thesis by (simp add: mergeArrayField_def)
next
  case (Some v)
  then show ?thesis
    by (cases v) (auto simp: mergeArrayField_def unionIfArray_def isArray_def obj_get_obj_set)
qed

lemma obj_get_fold_mergeArrayField:
  "distinct ks \<Longrightarrow>
   obj_get (fold (mergeArrayField parsed) ks m) key =
     (if key \<in> set ks then map_option (unionIfArray parsed key) (obj_get m key)
      else obj_get m key)"
proof (induction ks arbitrary: m)
  case Nil
  then show ?case by simp
next
  case (Cons k ks)
  have d: "distinct ks" and nk: "k \<notin> set ks" using Cons.prems by simp_all
  show ?case using Cons.IH [OF d, of "mergeArrayField parsed k m"] nk
    by (auto simp: obj_get_mergeArrayField)
qed

lemma obj_get_mergeArrays:
  assumes "distinct (obj_keys m)"
  shows "obj_get (mergeArrays parsed m) key = map_option (unionIfArray parsed key) (obj_get m key)"
proof (cases "key \<in> set (obj_keys m)")
  case True
  then show ?thesis using assms by (simp add: mergeArrays_def obj_get_fold_mergeArrayField)
next
  case False
  then have "obj_get m key = None" by (simp add: obj_get_None_iff)
  then show ?thesis using assms False by (simp add: mergeArrays_def obj_get_fold_mergeArrayField)
qed

lemma uniqueItems_firstSeen:
  "uniqueItems seen items = firstSeen itemStr (filter (\<lambda>x. itemStr x \<notin> set seen) items)"
proof (induction items arbitrary: seen)
  case Nil
  then show ?case by simp
next
  case (Cons x xs)
  show ?case
  proof (cases "itemStr x \<in> set seen")
    case True
    then show ?thesis using Cons.IH [of seen] by simp
  next
    case False
    have f: "filter (\<lambda>y. itemStr y \<noteq> itemStr x) (filter (\<lambda>y. itemStr y \<notin> set seen) xs) =
             filter (\<lambda>y. itemStr y \<notin> set (itemStr x # seen)) xs"
      by (induction xs) auto
    have "uniqueItems seen (x # xs) = x # uniqueItems (itemStr x # seen) xs"
      using False by simp
    also have "\<dots> = x # firstSeen itemStr (filter (\<lambda>y. itemStr y \<notin> set (itemStr x # seen)) xs)"
      using Cons.IH [of "itemStr x # seen"] by simp
    also have "\<dots> = x # firstSeen itemStr
        (filter (\<lambda>y. itemStr y \<noteq> itemStr x) (filter (\<lambda>y. itemStr y \<notin> set seen) xs))"
      by (simp only: f)
    also have "\<dots> = firstSeen itemStr (x # filter (\<lambda>y. itemStr y \<notin> set seen) xs)"
      by simp
    also have "\<dots> = firstSeen itemStr (filter (\<lambda>y. itemStr y \<notin> set seen) (x # xs))"
      using False by simp
    finally show ?thesis .
  qed
qed

lemma unionIfArray_firstSeen:
  "unionIfArray parsed key v =
     (if isArray v then JArr (firstSeen itemStr (allItems parsed key)) else v)"
  by (simp add: unionIfArray_def uniqueItems_firstSeen)

lemma votes_entry:
  assumes "0 < votesOf fv key s"
  shows "\<exists>inner e. obj_get fv key = Some inner \<and> obj_get inner s = Some e \<and> count e = votesOf fv key s"
  using assms by (auto simp: votesOf_def split: option.splits)

lemma entry_in_values: "obj_get inner s = Some e \<Longrightarrow> e \<in> set (obj_values inner)"
  by (auto simp: obj_get_def obj_values_def dest: map_of_SomeD intro: rev_image_eqI)

lemma selected_majority:
  assumes inv: "votesInv fv" and vals: "valuesInv parsed fv"
    and counts: "\<forall>s. votesOf fv key s = agreeing parsed key s"
    and two: "2 \<le> agreeing parsed key s0"
    and most: "\<forall>s. s \<noteq> s0 \<longrightarrow> agreeing parsed key s < agreeing parsed key s0"
  shows "\<exists>w. selected parsed fv key = Some w \<and> stringify w = s0 \<and> carried parsed key w"
proof -
  have "0 < votesOf fv key s0" using counts two by simp
  from votes_entry [OF this] obtain inner e0 where
    i: "obj_get fv key = Some inner" and e0: "obj_get inner s0 = Some e0"
    and c0: "count e0 = votesOf fv key s0" by blast
  have d: "distinct (obj_keys inner)" using inv i by (auto simp: votesInv_def)
  have in0: "e0 \<in> set (obj_values inner)" using e0 by (rule entry_in_values)
  then have "sortVotes (obj_values inner) \<noteq> []" by (auto simp: sortVotes_Nil)
  then obtain best others where b: "sortVotes (obj_values inner) = best # others"
    by (cases "sortVotes (obj_values inner)") auto
  from sortVotes_hd [OF b] have bin: "best \<in> set (obj_values inner)"
    and bmax: "\<forall>v\<in>set (obj_values inner). count v \<le> count best" by blast+
  from value_lookup [OF d bin] obtain sb where sb: "obj_get inner sb = Some best" by blast
  have "votesOf fv key sb = count best" using i sb by (simp add: votesOf_def)
  then have cb: "count best = agreeing parsed key sb" using counts by simp
  have c0': "count e0 = agreeing parsed key s0" using c0 counts by simp
  have "count e0 \<le> count best" using bmax in0 by blast
  then have "sb = s0" using most cb c0' by (metis not_less)
  then have same: "best = e0" using sb e0 by simp
  have "2 \<le> count best" using same c0' two by simp
  then have sel: "selected parsed fv key = Some (voteValue best)"
    using i b by (simp add: selected_def)
  have "stringify (voteValue best) = s0 \<and> carried parsed key (voteValue best)"
    using vals i e0 same unfolding valuesInv_def by blast
  then show ?thesis using sel by blast
qed

lemma selected_default:
  assumes "votesInv fv" and "key \<in> set (obj_keys fv)" and "\<forall>s. votesOf fv key s < 2"
    and "2 \<le> length parsed"
  shows "selected parsed fv key = getProp (hd parsed) key"
proof -
  from votesInv_lookup [OF assms(1,2)] obtain inner where
    i: "obj_get fv key = Some inner" "inner \<noteq> []" "distinct (obj_keys inner)" by blast
  then have "sortVotes (obj_values inner) \<noteq> []" by (simp add: sortVotes_Nil obj_values_def)
  then obtain best others where b: "sortVotes (obj_values inner) = best # others"
    by (cases "sortVotes (obj_values inner)") auto
  then have "best \<in> set (obj_values inner)" using sortVotes_hd by blast
  with value_lookup [OF i(3)] obtain s where s: "obj_get inner s = Some best" by blast
  then have "votesOf fv key s = count best" using i(1) by (simp add: votesOf_def)
  then have c: "count best < 2" using assms(3) by metis
  show ?thesis using i b c assms(4) by (auto simp: selected_def)
qed

lemma voted_key:
  assumes "0 < votesOf fv key s"
  shows "key \<in> set (obj_keys fv)"
proof -
  from votes_entry [OF assms] obtain inner where "obj_get fv key = Some inner" by blast
  then show ?thesis using obj_get_None_iff [of fv key] by auto
qed

lemma agreeing_pos:
  assumes "p \<in> set parsed" and "key \<in> set (Object_keys p)" and "getProp p key = Some v"
  shows "0 < agreeing parsed key (stringify v)"
proof -
  have "p \<in> set (filter (\<lambda>p. key \<in> set (Object_keys p) \<and>
                          map_option stringify (getProp p key) = Some (stringify v)) parsed)"
    using assms by simp
  then show ?thesis unfolding agreeing_def by (rule length_pos_if_in_set)
qed

lemma object_key: "getProp (JObj kvs) key = Some v \<Longrightarrow> key \<in> set (Object_keys (JObj kvs))"
  using obj_get_None_iff [of kvs key] by (auto simp: getProp_def Object_keys_def)

text \<open>
  Claim C1, as the code has it.  Take the parsed responses, at least one, none with a key
  named \<^verbatim>\<open>__proto__\<close>, and a key that is not the name of a member of \<^verbatim>\<open>Object.prototype\<close>.

  \<^item> When at least two responses carry values with one serialisation under the key, and
    more responses than carry any other, the merged value of the key is a value of a response
    with that serialisation: so \<open>{severity: high}\<close>, \<open>{severity: high}\<close>,
    \<open>{severity: low}\<close> give \<open>high\<close>.

  \<^item> When no value is carried by two of several responses, the merged value is the one of
    the first response, an object: so \<open>{a: [1,2]}\<close> and \<open>{a: [2,3]}\<close> give a sequence.

  \<^item> A merged value that is a sequence is the union of the sequences the responses carry
    under the key, in first-seen order and without repetition, where two items count as the
    same when their texts are equal: the characters of a string item, the serialisation of
    any other item.  So the examples give \<open>[1,2,3]\<close>.
\<close>

theorem consensus_majority_and_union:
  assumes "parsed = parseResponses JSON_parse responses" and "parsed \<noteq> []"
    and "\<forall>p\<in>set parsed. distinct (Object_keys p)"
    and "noProtoKey parsed"
    and "key \<notin> set objectPrototypeNames"
  shows "\<exists>res merged. synthesizeJsonConsensus JSON_parse responses = Inr res \<and>
           resParsed res = Some merged \<and>
           (\<forall>v. 2 \<le> agreeing parsed key (stringify v) \<and>
                (\<forall>s. s \<noteq> stringify v \<longrightarrow>
                     agreeing parsed key s < agreeing parsed key (stringify v)) \<longrightarrow>
                (\<exists>w. carried parsed key w \<and> stringify w = stringify v \<and>
                     obj_get merged key =
                       Some (if isArray w then JArr (firstSeen itemStr (allItems parsed key))
                             else w))) \<and>
           ((\<forall>s. agreeing parsed key s < 2) \<and> 2 \<le> length parsed \<and> isObject (hd parsed) \<longrightarrow>
              obj_get merged key =
                map_option
                  (\<lambda>w. if isArray w then JArr (firstSeen itemStr (allItems parsed key)) else w)
                  (getProp (hd parsed) key)) \<and>
           (\<forall>items. obj_get merged key = Some (JArr items) \<longrightarrow>
              items = firstSeen itemStr (allItems parsed key))"
proof -
  have len: "0 + length parsed \<le> length responses"
    using assms(1) length_parseResponses by simp
  from countVotes_ok [OF len assms(3) votesInv_Nil] obtain fv where
    fv: "countVotes responses 0 parsed [] = Inr fv" and inv: "votesInv fv"
    and votes: "\<forall>k s. k \<notin> set objectPrototypeNames \<longrightarrow>
                  votesOf fv k s = votesOf [] k s + agreeing parsed k s" by blast
  have vals: "valuesInv parsed fv"
    using valuesInv_countVotes [OF valuesInv_Nil subset_refl fv] .
  have counts: "\<forall>s. votesOf fv key s = agreeing parsed key s"
    using votes assms(5) by (simp add: votesOf_Nil)
  from selectFields_ok [OF inv _ assms(2), of "obj_keys fv" "[]"] obtain m where
    m: "selectFields parsed fv (obj_keys fv) [] = Inr m" by auto
  have d: "distinct (obj_keys m)"
    using selectFields_distinct [OF inv _ assms(2) _ m] by (simp add: obj_keys_def)
  have g: "obj_get m key =
      (if key \<in> set (obj_keys fv) \<and> selected parsed fv key \<noteq> None
       then selected parsed fv key else None)"
    using selectFields_get [OF inv _ assms(2) m, of key] by simp
  define merged where "merged = mergeArrays parsed m"
  define res where "res = \<lparr>resContent = stringifyIndent 0 (JObj merged), resParsed = Some merged,
      resProviders = map provider responses, resModels = map model responses,
      resConsensus = (if 1 < length parsed then MultiProvider else Single)\<rparr>"
  have mg: "obj_get merged key = map_option (unionIfArray parsed key) (obj_get m key)"
    unfolding merged_def using d by (rule obj_get_mergeArrays)
  have "mergeParsed responses parsed = Inr merged"
    using fv m by (simp add: mergeParsed_def merged_def)
  then have r: "synthesizeJsonConsensus JSON_parse responses = Inr res"
    using assms(1,2) by (simp add: synthesizeJsonConsensus_def Let_def res_def)
  have rp: "resParsed res = Some merged" by (simp add: res_def)
  have a: "\<forall>v. 2 \<le> agreeing parsed key (stringify v) \<and>
                (\<forall>s. s \<noteq> stringify v \<longrightarrow>
                     agreeing parsed key s < agreeing parsed key (stringify v)) \<longrightarrow>
                (\<exists>w. carried parsed key w \<and> stringify w = stringify v \<and>
                     obj_get merged key =
                       Some (if isArray w then JArr (firstSeen itemStr (allItems parsed key))
                             else w))"
  proof (intro allI impI)
    fix v
    assume h: "2 \<le> agreeing parsed key (stringify v) \<and>
                (\<forall>s. s \<noteq> stringify v \<longrightarrow>
                     agreeing parsed key s < agreeing parsed key (stringify v))"
    then have two: "2 \<le> agreeing parsed key (stringify v)"
      and most: "\<forall>s. s \<noteq> stringify v \<longrightarrow> agreeing parsed key s < agreeing parsed key (stringify v)"
      by simp_all
    from selected_majority [OF inv vals counts two most] obtain w where
      w: "selected parsed fv key = Some w" "stringify w = stringify v" "carried parsed key w"
      by blast
    have "0 < votesOf fv key (stringify v)" using counts two by simp
    then have "key \<in> set (obj_keys fv)" by (rule voted_key)
    then have "obj_get m key = Some w" using g w(1) by simp
    then have "obj_get merged key = Some (unionIfArray parsed key w)" using mg by simp
    then show "\<exists>w. carried parsed key w \<and> stringify w = stringify v \<and>
                     obj_get merged key =
                       Some (if isArray w then JArr (firstSeen itemStr (allItems parsed key))
                             else w)"
      using w(2,3) by (auto simp: unionIfArray_firstSeen)
  qed
  have b: "(\<forall>s. agreeing parsed key s < 2) \<and> 2 \<le> length parsed \<and> isObject (hd parsed) \<longrightarrow>
              obj_get merged key =
                map_option
                  (\<lambda>w. if isArray w then JArr (firstSeen itemStr (allItems parsed key)) else w)
                  (getProp (hd parsed) key)"
  proof
    assume h: "(\<forall>s. agreeing parsed key s < 2) \<and> 2 \<le> length parsed \<and> isObject (hd parsed)"
    then have few: "\<forall>s. votesOf fv key s < 2" and l2: "2 \<le> length parsed"
      and ob: "isObject (hd parsed)" using counts by simp_all
    have mk: "obj_get m key = getProp (hd parsed) key"
    proof (cases "key \<in> set (obj_keys fv)")
      case True
      have "selected parsed fv key = getProp (hd parsed) key"
        using inv True few l2 by (rule selected_default)
      then show ?thesis using g True by simp
    next
      case False
      obtain kvs where kvs: "hd parsed = JObj kvs"
        using ob by (cases "hd parsed") (simp_all add: isObject_def)
      have hin: "hd parsed \<in> set parsed" using assms(2) by simp
      have "getProp (hd parsed) key = None"
      proof (rule ccontr)
        assume "getProp (hd parsed) key \<noteq> None"
        then obtain v where v: "getProp (hd parsed) key = Some v" by auto
        then have "key \<in> set (Object_keys (hd parsed))" using kvs object_key by simp
        from agreeing_pos [OF hin this v] have "0 < votesOf fv key (stringify v)"
          using counts by simp
        then have "key \<in> set (obj_keys fv)" by (rule voted_key)
        then show False using False by simp
      qed
      then show ?thesis using g False by simp
    qed
    have u: "unionIfArray parsed key =
        (\<lambda>w. if isArray w then JArr (firstSeen itemStr (allItems parsed key)) else w)"
      by (rule ext) (simp add: unionIfArray_firstSeen)
    show "obj_get merged key =
                map_option
                  (\<lambda>w. if isArray w then JArr (firstSeen itemStr (allItems parsed key)) else w)
                  (getProp (hd parsed) key)"
      using mg mk u by simp
  qed
  have c: "\<forall>items. obj_get merged key = Some (JArr items) \<longrightarrow>
              items = firstSeen itemStr (allItems parsed key)"
  proof (intro allI impI)
    fix items
    assume h: "obj_get merged key = Some (JArr items)"
    then obtain x where x: "obj_get m key = Some x" and ux: "unionIfArray parsed key x = JArr items"
      using mg by (cases "obj_get m key") auto
    show "items = firstSeen itemStr (allItems parsed key)"
    proof (cases "isArray x")
      case True
      then show ?thesis using ux by (simp add: unionIfArray_firstSeen)
    next
      case False
      then have "x = JArr items" using ux by (simp add: unionIfArray_def)
      then show ?thesis using False by (simp add: isArray_def)
    qed
  qed
  show ?thesis using r rp a b c by blast
qed

theorem consensus_majority_and_union_witness:
  "(\<exists>res merged. synthesizeJsonConsensus exampleParse [exHigh, exHigh, exLow] = Inr res \<and>
       resParsed res = Some merged \<and> obj_get merged ''severity'' = Some (JStr ''high'')) \<and>
   (\<exists>res merged. synthesizeJsonConsensus exampleParse [exA12, exA23] = Inr res \<and>
       resParsed res = Some merged \<and>
       obj_get merged ''a'' = Some (JArr [JNum 1, JNum 2, JNum 3]))"
proof -
  define P where "P = [JObj [(''severity'', JStr ''high'')], JObj [(''severity'', JStr ''high'')],
      JObj [(''severity'', JStr ''low'')]]"
  define Q where "Q = [JObj [(''a'', JArr [JNum 1, JNum 2])], JObj [(''a'', JArr [JNum 2, JNum 3])]]"
  have p: "P = parseResponses exampleParse [exHigh, exHigh, exLow]"
    unfolding P_def by code_simp
  have q: "Q = parseResponses exampleParse [exA12, exA23]"
    unfolding Q_def by code_simp
  have k1: "''severity'' \<notin> set objectPrototypeNames" by code_simp
  have k2: "''a'' \<notin> set objectPrototypeNames" by code_simp
  have pd: "\<forall>x\<in>set P. distinct (Object_keys x)" by (simp add: P_def Object_keys_def obj_keys_def)
  have qd: "\<forall>x\<in>set Q. distinct (Object_keys x)" by (simp add: Q_def Object_keys_def obj_keys_def)
  have pn: "noProtoKey P" by (simp add: P_def noProtoKey_def Object_keys_def obj_keys_def)
  have qn: "noProtoKey Q" by (simp add: Q_def noProtoKey_def Object_keys_def obj_keys_def)
  have pne: "P \<noteq> []" by (simp add: P_def)
  have qne: "Q \<noteq> []" by (simp add: Q_def)
  have differ: "stringify (JStr ''low'') \<noteq> stringify (JStr ''high'')" by code_simp
  have differ2: "stringify (JArr [JNum 1, JNum 2]) \<noteq> stringify (JArr [JNum 2, JNum 3])"
    by code_simp
  have ag: "agreeing P ''severity'' s =
      (if stringify (JStr ''high'') = s then 2 else 0) + (if stringify (JStr ''low'') = s then 1 else 0)"
    for s
    by (simp add: agreeing_def P_def Object_keys_def obj_keys_def getProp_def obj_get_def
        del: stringify.simps)
  have two: "2 \<le> agreeing P ''severity'' (stringify (JStr ''high''))" by (simp add: ag)
  have most: "\<forall>s. s \<noteq> stringify (JStr ''high'') \<longrightarrow>
      agreeing P ''severity'' s < agreeing P ''severity'' (stringify (JStr ''high''))"
    by (simp add: ag del: stringify.simps)
  from consensus_majority_and_union [OF p pne pd pn k1] obtain res merged where
    r: "synthesizeJsonConsensus exampleParse [exHigh, exHigh, exLow] = Inr res"
    and rp: "resParsed res = Some merged"
    and maj: "\<forall>v. 2 \<le> agreeing P ''severity'' (stringify v) \<and>
                (\<forall>s. s \<noteq> stringify v \<longrightarrow>
                     agreeing P ''severity'' s < agreeing P ''severity'' (stringify v)) \<longrightarrow>
                (\<exists>w. carried P ''severity'' w \<and> stringify w = stringify v \<and>
                     obj_get merged ''severity'' =
                       Some (if isArray w then JArr (firstSeen itemStr (allItems P ''severity''))
                             else w))"
    by blast
  from maj two most obtain w where
    w: "carried P ''severity'' w" "stringify w = stringify (JStr ''high'')"
      "obj_get merged ''severity'' =
         Some (if isArray w then JArr (firstSeen itemStr (allItems P ''severity'')) else w)"
    by blast
  have "w = JStr ''high'' \<or> w = JStr ''low''"
    using w(1) by (auto simp: carried_def P_def getProp_def obj_get_def)
  then have "w = JStr ''high''" using w(2) differ by auto
  then have first: "obj_get merged ''severity'' = Some (JStr ''high'')"
    using w(3) by (simp add: isArray_def)
  have ag2: "agreeing Q ''a'' s =
      (if stringify (JArr [JNum 1, JNum 2]) = s then 1 else 0) +
      (if stringify (JArr [JNum 2, JNum 3]) = s then 1 else 0)" for s
    by (simp add: agreeing_def Q_def Object_keys_def obj_keys_def getProp_def obj_get_def
        del: stringify.simps)
  have few: "\<forall>s. agreeing Q ''a'' s < 2" using differ2 by (auto simp: ag2 simp del: stringify.simps)
  have l2: "2 \<le> length Q" by (simp add: Q_def)
  have ob: "isObject (hd Q)" by (simp add: Q_def isObject_def)
  from consensus_majority_and_union [OF q qne qd qn k2] obtain res2 merged2 where
    r2: "synthesizeJsonConsensus exampleParse [exA12, exA23] = Inr res2"
    and rp2: "resParsed res2 = Some merged2"
    and dflt: "(\<forall>s. agreeing Q ''a'' s < 2) \<and> 2 \<le> length Q \<and> isObject (hd Q) \<longrightarrow>
              obj_get merged2 ''a'' =
                map_option
                  (\<lambda>w. if isArray w then JArr (firstSeen itemStr (allItems Q ''a'')) else w)
                  (getProp (hd Q) ''a'')"
    by blast
  have u: "firstSeen itemStr (allItems Q ''a'') = [JNum 1, JNum 2, JNum 3]"
    unfolding Q_def by code_simp
  have gp: "getProp (hd Q) ''a'' = Some (JArr [JNum 1, JNum 2])"
    by (simp add: Q_def getProp_def obj_get_def)
  have second: "obj_get merged2 ''a'' = Some (JArr [JNum 1, JNum 2, JNum 3])"
    using dflt few l2 ob by (simp add: gp u isArray_def)
  show ?thesis using r rp first r2 rp2 second by blast
qed

text \<open>
  Claim C1 as stated fails where it describes the union: two responses that parse to
  \<open>{a: [1]}\<close> and \<open>{a: ["1"]}\<close> are merged into \<open>{a: [1]}\<close>.  The number 1 and the string
  \<open>"1"\<close> are different items, but they have the same text, and the second one is dropped.
\<close>

theorem union_drops_string_equal_to_number:
  "map_sum id resParsed (synthesizeJsonConsensus exampleParse [exNumberOne, exStringOne]) =
     Inr (Some [(''a'', JArr [JNum 1])]) \<and>
   allItems (parseResponses exampleParse [exNumberOne, exStringOne]) ''a'' = [JNum 1, JStr ''1''] \<and>
   JNum 1 \<noteq> JStr ''1''"
  by code_simp

section \<open>Consensus synthesis: a tie between numeric values\<close>

text \<open>
  Claim C5, evaluated where it fails.  Four responses carry \<open>n = 5\<close>, \<open>3\<close>, \<open>3\<close>, \<open>5\<close>
  in priority order.  Both values have two votes and the first response says \<open>5\<close>, yet
  the merged value is \<open>3\<close>: the serialisations \<open>5\<close> and \<open>3\<close> are array indices, which the
  vote table enumerates in ascending numeric order whatever the order of arrival.
\<close>

theorem tie_between_numbers:
  "mergeParsed [r1, r2, r3, r4]
     [JObj [(''n'', JNum 5)], JObj [(''n'', JNum 3)], JObj [(''n'', JNum 3)], JObj [(''n'', JNum 5)]]
     = Inr [(''n'', JNum 3)] \<and>
   agreeing [JObj [(''n'', JNum 5)], JObj [(''n'', JNum 3)], JObj [(''n'', JNum 3)],
             JObj [(''n'', JNum 5)]] ''n'' (stringify (JNum 5)) = 2 \<and>
   agreeing [JObj [(''n'', JNum 5)], JObj [(''n'', JNum 3)], JObj [(''n'', JNum 3)],
             JObj [(''n'', JNum 5)]] ''n'' (stringify (JNum 3)) = 2 \<and>
   getProp (JObj [(''n'', JNum 5)]) ''n'' = Some (JNum 5)"
  by code_simp

section \<open>Consensus synthesis: keys the first response lacks\<close>

text \<open>
  Claim C10, as the code has it.  Take two or more parsed responses, none with a key named
  \<^verbatim>\<open>__proto__\<close>.  A top-level key for which no serialised value is carried by two responses,
  and which the first (highest-priority) parsed response, a JSON object, does not contain, is
  absent from the merged object, whatever the later responses say about it.
\<close>

theorem absent_without_first_provider:
  assumes "parsed = parseResponses JSON_parse responses"
    and "2 \<le> length parsed"
    and "\<forall>p\<in>set parsed. distinct (Object_keys p)"
    and "noProtoKey parsed"
    and "\<forall>s. agreeing parsed key s < 2"
    and "hd parsed = JObj kvs"
    and "key \<notin> set (obj_keys kvs)"
  shows "\<exists>res merged. synthesizeJsonConsensus JSON_parse responses = Inr res \<and>
           resParsed res = Some merged \<and> obj_get merged key = None"
proof -
  have len: "0 + length parsed \<le> length responses"
    using assms(1) length_parseResponses by simp
  from countVotes_ok [OF len assms(3) votesInv_Nil] obtain fv where
    fv: "countVotes responses 0 parsed [] = Inr fv" and inv: "votesInv fv"
    and votes: "\<forall>k s. k \<notin> set objectPrototypeNames \<longrightarrow>
                  votesOf fv k s = votesOf [] k s + agreeing parsed k s" by blast
  have few: "\<forall>s. votesOf fv key s < 2"
  proof (cases "key \<in> set objectPrototypeNames")
    case True
    then have "key \<notin> set (obj_keys fv)" using inv by (auto simp: votesInv_def)
    then show ?thesis by (simp add: votesOf_absent)
  next
    case False
    then show ?thesis using votes assms(5) by (simp add: votesOf_Nil)
  qed
  have first: "getProp (hd parsed) key = None"
    using assms(6,7) by (simp add: getProp_object)
  have ne: "parsed \<noteq> []" using assms(2) by auto
  from selectFields_ok [OF inv _ ne, of "obj_keys fv" "[]"] obtain m where
    m: "selectFields parsed fv (obj_keys fv) [] = Inr m" by auto
  have "key \<notin> set (obj_keys m)"
    using selectFields_absent [OF inv _ assms(2) few first _ m] by (simp add: obj_keys_def)
  then have absent: "obj_get (mergeArrays parsed m) key = None"
    by (simp add: obj_get_None_iff keys_mergeArrays)
  have "mergeParsed responses parsed = Inr (mergeArrays parsed m)"
    using fv m by (simp add: mergeParsed_def)
  then show ?thesis
    using assms(1) ne absent by (simp add: synthesizeJsonConsensus_def Let_def)
qed

theorem absent_without_first_provider_witness:
  "2 \<le> length (parseResponses exampleParse [exA1, exA2B7]) \<and>
   noProtoKey (parseResponses exampleParse [exA1, exA2B7]) \<and>
   hd (parseResponses exampleParse [exA1, exA2B7]) = JObj [(''a'', JNum 1)] \<and>
   agreeing (parseResponses exampleParse [exA1, exA2B7]) ''b'' ''7'' = 1 \<and>
   (\<exists>res merged. synthesizeJsonConsensus exampleParse [exA1, exA2B7] = Inr res \<and>
       resParsed res = Some merged \<and> obj_get merged ''b'' = None)"
proof -
  have p: "parseResponses exampleParse [exA1, exA2B7] =
      [JObj [(''a'', JNum 1)], JObj [(''a'', JNum 2), (''b'', JNum 7)]]"
    by code_simp
  have h2: "2 \<le> length (parseResponses exampleParse [exA1, exA2B7])" by (simp add: p)
  have h3: "\<forall>q\<in>set (parseResponses exampleParse [exA1, exA2B7]). distinct (Object_keys q)"
    by (simp add: p Object_keys_def obj_keys_def)
  have h4: "noProtoKey (parseResponses exampleParse [exA1, exA2B7])"
    by (simp add: p noProtoKey_def Object_keys_def obj_keys_def)
  have h5: "\<forall>s. agreeing (parseResponses exampleParse [exA1, exA2B7]) ''b'' s < 2"
    by (simp add: p agreeing_def Object_keys_def obj_keys_def getProp_def obj_get_def)
  have h6: "hd (parseResponses exampleParse [exA1, exA2B7]) = JObj [(''a'', JNum 1)]"
    by (simp add: p)
  have h7: "''b'' \<notin> set (obj_keys [(''a'', JNum 1)])" by (simp add: obj_keys_def)
  have h8: "agreeing (parseResponses exampleParse [exA1, exA2B7]) ''b'' ''7'' = 1"
    unfolding p by code_simp
  show ?thesis
    using absent_without_first_provider [OF refl h2 h3 h4 h5 h6 h7] h2 h4 h6 h8 by blast
qed

text \<open>
  Claim C10 as stated fails when the first parsed response is not an object.  The first
  response is the array \<open>["Anemia"]\<close> and the second the object \<open>{"length": 5}\<close>: the array
  has no key \<open>length\<close> and the value 5 has one vote, yet the merged object has \<open>length\<close>,
  with the number of elements of the array as its value.
\<close>

theorem array_length_taken_for_value:
  "map_sum id resParsed (synthesizeJsonConsensus exampleParse [exAnemiaArray, exLength]) =
     Inr (Some [(''0'', JStr ''Anemia''), (''length'', JNum 1)]) \<and>
   parseResponses exampleParse [exAnemiaArray, exLength] =
     [JArr [JStr ''Anemia''], JObj [(''length'', JNum 5)]] \<and>
   Object_keys (JArr [JStr ''Anemia'']) = [''0''] \<and>
   agreeing [JArr [JStr ''Anemia''], JObj [(''length'', JNum 5)]] ''length'' (stringify (JNum 5)) = 1"
  by code_simp

section \<open>Fallback orchestration: first success, or exhaustion\<close>

lemma tryProviders_step_fail:
  "callProvider i (name p) (optionsFor opts p) = Inl msg \<Longrightarrow>
   tryProviders callProvider opts i (p # ps) le errs calls =
   tryProviders callProvider opts (Suc i) ps (Some msg)
     (errs @ [\<lparr>errProvider = name p, errError = substring0 (messageOrString msg) 200\<rparr>])
     (calls @ [attemptOf opts p])"
  by (simp add: attemptOf_def Let_def)

lemma tryProviders_step_ok:
  "callProvider i (name p) (optionsFor opts p) = Inr c \<Longrightarrow>
   tryProviders callProvider opts i (p # ps) le errs calls =
   (calls @ [attemptOf opts p], errs,
    Inr \<lparr>aiContent = c, aiProvider = name p, aiModel = actualModel (genModel opts) p\<rparr>)"
  by (simp add: attemptOf_def Let_def)

lemma tryProviders_success:
  "k < length ps \<Longrightarrow>
   (\<forall>j<k. isl (callProvider (i + j) (name (ps ! j)) (optionsFor opts (ps ! j)))) \<Longrightarrow>
   callProvider (i + k) (name (ps ! k)) (optionsFor opts (ps ! k)) = Inr c \<Longrightarrow>
   \<exists>errs'. tryProviders callProvider opts i ps le errs calls =
     (calls @ map (attemptOf opts) (take (Suc k) ps), errs',
      Inr \<lparr>aiContent = c, aiProvider = name (ps ! k),
           aiModel = actualModel (genModel opts) (ps ! k)\<rparr>)"
proof (induction ps arbitrary: i k le errs calls)
  case Nil
  then show ?case by simp
next
  case (Cons p ps)
  show ?case
  proof (cases k)
    case 0
    then have "callProvider i (name p) (optionsFor opts p) = Inr c" using Cons.prems(3) by simp
    then show ?thesis using 0 by (simp add: tryProviders_step_ok del: tryProviders.simps)
  next
    case (Suc k')
    have "isl (callProvider (i + 0) (name ((p # ps) ! 0)) (optionsFor opts ((p # ps) ! 0)))"
      using Cons.prems(2) Suc by blast
    then obtain msg where msg: "callProvider i (name p) (optionsFor opts p) = Inl msg"
      by (cases "callProvider i (name p) (optionsFor opts p)") auto
    have k': "k' < length ps" using Cons.prems(1) Suc by simp
    have f: "\<forall>j<k'. isl (callProvider (Suc i + j) (name (ps ! j)) (optionsFor opts (ps ! j)))"
    proof (intro allI impI)
      fix j assume "j < k'"
      then have "Suc j < k" using Suc by simp
      from Cons.prems(2) [rule_format, OF this] show
        "isl (callProvider (Suc i + j) (name (ps ! j)) (optionsFor opts (ps ! j)))" by simp
    qed
    have s: "callProvider (Suc i + k') (name (ps ! k')) (optionsFor opts (ps ! k')) = Inr c"
      using Cons.prems(3) Suc by simp
    note st = tryProviders_step_fail [where callProvider = callProvider and i = i and p = p
        and opts = opts and msg = msg, OF msg]
    from Cons.IH [OF k' f s, of "Some msg"
        "errs @ [\<lparr>errProvider = name p, errError = substring0 (messageOrString msg) 200\<rparr>]"
        "calls @ [attemptOf opts p]"]
    show ?thesis
      using Suc by (simp add: st del: tryProviders.simps)
  qed
qed

lemma tryProviders_exhausted:
  "(\<forall>j<length ps. isl (callProvider (i + j) (name (ps ! j)) (optionsFor opts (ps ! j)))) \<Longrightarrow>
   \<exists>errs'. tryProviders callProvider opts i ps le errs calls =
     (calls @ map (attemptOf opts) ps, errs',
      Inl (AllProvidersFailed
        (messageOrUnknown
           (if ps = [] then le
            else Some (projl (callProvider (i + (length ps - 1)) (name (last ps))
                                (optionsFor opts (last ps))))))))
     \<and> length errs' = length errs + length ps"
proof (induction ps arbitrary: i le errs calls)
  case Nil
  then show ?case by simp
next
  case (Cons p ps)
  have "isl (callProvider (i + 0) (name ((p # ps) ! 0)) (optionsFor opts ((p # ps) ! 0)))"
    using Cons.prems by blast
  then obtain msg where msg: "callProvider i (name p) (optionsFor opts p) = Inl msg"
    by (cases "callProvider i (name p) (optionsFor opts p)") auto
  have f: "\<forall>j<length ps. isl (callProvider (Suc i + j) (name (ps ! j)) (optionsFor opts (ps ! j)))"
  proof (intro allI impI)
    fix j assume "j < length ps"
    then have "Suc j < length (p # ps)" by simp
    from Cons.prems [rule_format, OF this] show
      "isl (callProvider (Suc i + j) (name (ps ! j)) (optionsFor opts (ps ! j)))" by simp
  qed
  note st = tryProviders_step_fail [where callProvider = callProvider and i = i and p = p
      and opts = opts and msg = msg, OF msg]
  note ih = Cons.IH [OF f, of "Some msg"
      "errs @ [\<lparr>errProvider = name p, errError = substring0 (messageOrString msg) 200\<rparr>]"
      "calls @ [attemptOf opts p]"]
  have idx: "ps \<noteq> [] \<Longrightarrow> Suc (i + (length ps - Suc 0)) = i + length ps"
    by (cases ps) simp_all
  show ?case
    using ih msg idx by (cases "ps = []") (auto simp: st simp del: tryProviders.simps)
qed

lemma tryProviders_calls:
  "\<exists>n. fst (tryProviders callProvider opts i ps le errs calls) =
         calls @ map (attemptOf opts) (take n ps)"
proof (induction ps arbitrary: i le errs calls)
  case Nil
  then show ?case by simp
next
  case (Cons p ps)
  show ?case
  proof (cases "callProvider i (name p) (optionsFor opts p)")
    case (Inr c)
    have "take (Suc 0) (p # ps) = [p]" by simp
    then have "fst (tryProviders callProvider opts i (p # ps) le errs calls) =
        calls @ map (attemptOf opts) (take (Suc 0) (p # ps))"
      using Inr by (simp add: tryProviders_step_ok del: tryProviders.simps)
    then show ?thesis by blast
  next
    case (Inl msg)
    note st = tryProviders_step_fail [where callProvider = callProvider and i = i and p = p
        and opts = opts and msg = msg, OF Inl]
    from Cons.IH [of "Suc i" "Some msg"
        "errs @ [\<lparr>errProvider = name p, errError = substring0 (messageOrString msg) 200\<rparr>]"
        "calls @ [attemptOf opts p]"]
    obtain n where n: "fst (tryProviders callProvider opts (Suc i) ps (Some msg)
        (errs @ [\<lparr>errProvider = name p, errError = substring0 (messageOrString msg) 200\<rparr>])
        (calls @ [attemptOf opts p])) = (calls @ [attemptOf opts p]) @ map (attemptOf opts) (take n ps)"
      by blast
    have "fst (tryProviders callProvider opts i (p # ps) le errs calls) =
        calls @ map (attemptOf opts) (take (Suc n) (p # ps))"
      using n by (simp add: st del: tryProviders.simps)
    then show ?thesis by blast
  qed
qed

lemma attProvider_attemptOf: "map attProvider (map (attemptOf opts) ps) = map name ps"
  by (simp add: attemptOf_def)

lemma distinct_names_take: "distinct (map name ps) \<Longrightarrow> distinct (map name (take n ps))"
  by (simp add: take_map [symmetric] distinct_take)

text \<open>
  Claim C2, as the code has it.  Let the registry list \<open>N \<ge> 1\<close> entries.  If every call
  before the \<open>k\<close>-th entry fails and the call to the \<open>k\<close>-th succeeds (in particular when the
  first \<open>N - 1\<close> fail and the \<open>N\<close>-th succeeds), the function returns that provider's content
  and the calls made are exactly the entries up to it, in order, each once.  If every call
  fails, the calls made are exactly the \<open>N\<close> entries, in order, each once, and the outcome is
  the one exhaustion error; it carries the message of the last failure, or \<open>Unknown error\<close>
  when that message is empty or missing.  When the entries have different provider names, no
  provider is called twice.
\<close>

theorem fallback_chain:
  assumes "providers = getAvailableProviders e (preferredProviders opts)"
    and "providers \<noteq> []"
  shows "(\<forall>k c. k < length providers \<and>
            (\<forall>j<k. isl (outcomeAt callProvider opts providers j)) \<and>
            outcomeAt callProvider opts providers k = Inr c \<longrightarrow>
            fst (generateAIResponse e callProvider opts) = map (attemptOf opts) (take (Suc k) providers) \<and>
            snd (snd (generateAIResponse e callProvider opts)) =
              Inr \<lparr>aiContent = c, aiProvider = name (providers ! k),
                   aiModel = actualModel (genModel opts) (providers ! k)\<rparr>) \<and>
         ((\<forall>j<length providers. isl (outcomeAt callProvider opts providers j)) \<longrightarrow>
            fst (generateAIResponse e callProvider opts) = map (attemptOf opts) providers \<and>
            snd (snd (generateAIResponse e callProvider opts)) =
              Inl (AllProvidersFailed
                (messageOrUnknown
                   (Some (projl (outcomeAt callProvider opts providers (length providers - 1))))))) \<and>
         (distinct (map name providers) \<longrightarrow>
            distinct (map attProvider (fst (generateAIResponse e callProvider opts))))"
proof -
  have g: "generateAIResponse e callProvider opts = tryProviders callProvider opts 0 providers None [] []"
    using assms by (simp add: generateAIResponse_def Let_def)
  have a: "\<forall>k c. k < length providers \<and>
            (\<forall>j<k. isl (outcomeAt callProvider opts providers j)) \<and>
            outcomeAt callProvider opts providers k = Inr c \<longrightarrow>
            fst (generateAIResponse e callProvider opts) = map (attemptOf opts) (take (Suc k) providers) \<and>
            snd (snd (generateAIResponse e callProvider opts)) =
              Inr \<lparr>aiContent = c, aiProvider = name (providers ! k),
                   aiModel = actualModel (genModel opts) (providers ! k)\<rparr>"
  proof (intro allI impI)
    fix k c
    assume h: "k < length providers \<and>
            (\<forall>j<k. isl (outcomeAt callProvider opts providers j)) \<and>
            outcomeAt callProvider opts providers k = Inr c"
    then have h1: "k < length providers"
      and h2: "\<forall>j<k. isl (callProvider (0 + j) (name (providers ! j)) (optionsFor opts (providers ! j)))"
      and h3: "callProvider (0 + k) (name (providers ! k)) (optionsFor opts (providers ! k)) = Inr c"
      by (simp_all add: outcomeAt_def)
    from tryProviders_success [OF h1 h2 h3, of None "[]" "[]"] obtain errs' where
      "tryProviders callProvider opts 0 providers None [] [] =
         ([] @ map (attemptOf opts) (take (Suc k) providers), errs',
          Inr \<lparr>aiContent = c, aiProvider = name (providers ! k),
               aiModel = actualModel (genModel opts) (providers ! k)\<rparr>)" by blast
    then show "fst (generateAIResponse e callProvider opts) = map (attemptOf opts) (take (Suc k) providers) \<and>
            snd (snd (generateAIResponse e callProvider opts)) =
              Inr \<lparr>aiContent = c, aiProvider = name (providers ! k),
                   aiModel = actualModel (genModel opts) (providers ! k)\<rparr>"
      by (simp add: g)
  qed
  have b: "(\<forall>j<length providers. isl (outcomeAt callProvider opts providers j)) \<longrightarrow>
            fst (generateAIResponse e callProvider opts) = map (attemptOf opts) providers \<and>
            snd (snd (generateAIResponse e callProvider opts)) =
              Inl (AllProvidersFailed
                (messageOrUnknown
                   (Some (projl (outcomeAt callProvider opts providers (length providers - 1))))))"
  proof
    assume "\<forall>j<length providers. isl (outcomeAt callProvider opts providers j)"
    then have h: "\<forall>j<length providers.
        isl (callProvider (0 + j) (name (providers ! j)) (optionsFor opts (providers ! j)))"
      by (simp add: outcomeAt_def)
    from tryProviders_exhausted [OF h, of None "[]" "[]"] obtain errs' where
      "tryProviders callProvider opts 0 providers None [] [] =
        ([] @ map (attemptOf opts) providers, errs',
         Inl (AllProvidersFailed
           (messageOrUnknown
             (if providers = [] then None
              else Some (projl (callProvider (0 + (length providers - 1)) (name (last providers))
                            (optionsFor opts (last providers))))))))" by blast
    then show "fst (generateAIResponse e callProvider opts) = map (attemptOf opts) providers \<and>
            snd (snd (generateAIResponse e callProvider opts)) =
              Inl (AllProvidersFailed
                (messageOrUnknown
                   (Some (projl (outcomeAt callProvider opts providers (length providers - 1))))))"
      using assms(2) by (simp add: g outcomeAt_def last_conv_nth)
  qed
  have c: "distinct (map name providers) \<longrightarrow>
            distinct (map attProvider (fst (generateAIResponse e callProvider opts)))"
  proof
    assume d: "distinct (map name providers)"
    from tryProviders_calls [of callProvider opts 0 providers None "[]" "[]"] obtain n where
      "fst (tryProviders callProvider opts 0 providers None [] []) =
         [] @ map (attemptOf opts) (take n providers)" by blast
    then have "map attProvider (fst (generateAIResponse e callProvider opts)) =
        map attProvider (map (attemptOf opts) (take n providers))"
      by (simp add: g)
    then have "map attProvider (fst (generateAIResponse e callProvider opts)) =
        map name (take n providers)"
      by (simp only: attProvider_attemptOf)
    then show "distinct (map attProvider (fst (generateAIResponse e callProvider opts)))"
      using distinct_names_take [OF d] by simp
  qed
  show ?thesis using a b c by blast
qed

theorem fallback_chain_witness:
  "getAvailableProviders exEnv (preferredProviders exOpts) \<noteq> [] \<and>
   map attProvider (fst (generateAIResponse exEnv exCallLast exOpts)) = [''gemini'', ''groq'', ''openai''] \<and>
   snd (snd (generateAIResponse exEnv exCallLast exOpts)) =
     Inr \<lparr>aiContent = ''answer'', aiProvider = ''openai'', aiModel = ''gpt-4o-mini''\<rparr> \<and>
   map attProvider (fst (generateAIResponse exEnv exCallNone exOpts)) = [''gemini'', ''groq'', ''openai''] \<and>
   snd (snd (generateAIResponse exEnv exCallNone exOpts)) = Inl (AllProvidersFailed ''503 unavailable'') \<and>
   snd (snd (generateAIResponse exEnv exCallSilent exOpts)) = Inl (AllProvidersFailed ''Unknown error'') \<and>
   distinct (map attProvider (fst (generateAIResponse exEnv exCallNone exOpts)))"
proof -
  define pg where "pg = \<lparr>name = ''gemini'', pmodel = ''gemini-2.0-flash-exp'',
      pclient = Some (GeminiSdk ''AIzaSy-example''), apiKey = None\<rparr>"
  define pq where "pq = \<lparr>name = ''groq'', pmodel = ''llama-3.3-70b-versatile'',
      pclient = Some (GroqSdk ''gsk_example''), apiKey = None\<rparr>"
  define po where "po = \<lparr>name = ''openai'', pmodel = ''gpt-4o-mini'',
      pclient = Some (OpenAISdk ''sk-example''), apiKey = None\<rparr>"
  have ps: "[pg, pq, po] = getAvailableProviders exEnv (preferredProviders exOpts)"
    unfolding pg_def pq_def po_def by code_simp
  have ne: "[pg, pq, po] \<noteq> []" by simp
  have f: "\<forall>j<2. isl (outcomeAt exCallLast exOpts [pg, pq, po] j)"
    by (simp add: outcomeAt_def exCallLast_def)
  have s: "outcomeAt exCallLast exOpts [pg, pq, po] 2 = Inr ''answer''"
    by (simp add: outcomeAt_def exCallLast_def)
  have a: "\<forall>j<length [pg, pq, po]. isl (outcomeAt exCallNone exOpts [pg, pq, po] j)"
    by (simp add: outcomeAt_def exCallNone_def)
  have q: "\<forall>j<length [pg, pq, po]. isl (outcomeAt exCallSilent exOpts [pg, pq, po] j)"
    by (simp add: outcomeAt_def exCallSilent_def)
  have d: "distinct (map name [pg, pq, po])" by (simp add: pg_def pq_def po_def)
  from fallback_chain [OF ps ne, of exCallLast] f s
  have r1: "fst (generateAIResponse exEnv exCallLast exOpts) = map (attemptOf exOpts) (take (Suc 2) [pg, pq, po]) \<and>
            snd (snd (generateAIResponse exEnv exCallLast exOpts)) =
              Inr \<lparr>aiContent = ''answer'', aiProvider = name ([pg, pq, po] ! 2),
                   aiModel = actualModel (genModel exOpts) ([pg, pq, po] ! 2)\<rparr>"
    by (metis (no_types, lifting) One_nat_def Suc_1 length_Cons lessI list.size(3))
  from fallback_chain [OF ps ne, of exCallNone] a
  have r2: "fst (generateAIResponse exEnv exCallNone exOpts) = map (attemptOf exOpts) [pg, pq, po] \<and>
            snd (snd (generateAIResponse exEnv exCallNone exOpts)) =
              Inl (AllProvidersFailed (messageOrUnknown
                (Some (projl (outcomeAt exCallNone exOpts [pg, pq, po] (length [pg, pq, po] - 1))))))"
    by blast
  from fallback_chain [OF ps ne, of exCallSilent] q
  have r3: "snd (snd (generateAIResponse exEnv exCallSilent exOpts)) =
              Inl (AllProvidersFailed (messageOrUnknown
                (Some (projl (outcomeAt exCallSilent exOpts [pg, pq, po] (length [pg, pq, po] - 1))))))"
    by blast
  from fallback_chain [OF ps ne, of exCallNone] d
  have r4: "distinct (map attProvider (fst (generateAIResponse exEnv exCallNone exOpts)))"
    by blast
  have m1: "messageOrUnknown (Some (projl (outcomeAt exCallNone exOpts [pg, pq, po] (length [pg, pq, po] - 1))))
      = ''503 unavailable''"
    by (simp add: outcomeAt_def exCallNone_def messageOrUnknown_def newError_def)
  have m2: "messageOrUnknown (Some (projl (outcomeAt exCallSilent exOpts [pg, pq, po] (length [pg, pq, po] - 1))))
      = ''Unknown error''"
    by (simp add: outcomeAt_def exCallSilent_def messageOrUnknown_def newError_def)
  show ?thesis
    using r1 r2 r3 r4 ps [symmetric] m1 m2
    by (simp add: attemptOf_def pg_def pq_def po_def actualModel_def exOpts_def)
qed

text \<open>
  Claim C2 as stated fails where it says that no provider is tried again: when both
  \<^verbatim>\<open>GEMINI_API_KEY\<close> and \<^verbatim>\<open>PERPLEXITY_API_KEY\<close> hold OpenRouter keys the registry lists
  OpenRouter twice, and with a model named by the caller the second call repeats the first
  one, provider, model and options.
\<close>

theorem openrouter_called_twice:
  "fst (generateAIResponse exTwoRouterEnv exCallNone exStatisticsOpts) =
     [\<lparr>attProvider = ''openrouter'',
       attOptions = \<lparr>temperature = Some (1 / 10), maxTokens = Some 4000,
                     optModel = Some ''perplexity/llama-3.1-sonar-large-32k-online''\<rparr>\<rparr>,
      \<lparr>attProvider = ''openrouter'',
       attOptions = \<lparr>temperature = Some (1 / 10), maxTokens = Some 4000,
                     optModel = Some ''perplexity/llama-3.1-sonar-large-32k-online''\<rparr>\<rparr>] \<and>
   snd (snd (generateAIResponse exTwoRouterEnv exCallNone exStatisticsOpts)) =
     Inl (AllProvidersFailed ''503 unavailable'')"
proof -
  have ps: "getAvailableProviders exTwoRouterEnv [''openrouter''] =
      [\<lparr>name = ''openrouter'', pmodel = ''google/gemini-2.0-flash-exp'',
        pclient = Some (OpenRouterKey ''sk-or-v1-first''), apiKey = Some ''sk-or-v1-first''\<rparr>,
       \<lparr>name = ''openrouter'', pmodel = ''perplexity/llama-3.1-sonar-large-32k-online'',
        pclient = Some (OpenRouterKey ''sk-or-v1-second''), apiKey = Some ''sk-or-v1-second''\<rparr>]"
    by code_simp
  show ?thesis
    by (simp add: generateAIResponse_def Let_def exStatisticsOpts_def ps exCallNone_def
        optionsFor_def actualModel_def messageOrUnknown_def newError_def)
qed

section \<open>Provider registry: the preferred order\<close>

lemma remdups_snoc: "remdups (xs @ [x]) = filter (\<lambda>y. y \<noteq> x) (remdups xs) @ [x]"
  by (induction xs) auto

lemma orderMap_snoc: "orderMap (xs @ [x]) = (orderMap xs)(x \<mapsto> length xs)"
  by (simp add: orderMap_def)

lemma orderMap_Nil: "orderMap [] = Map.empty"
  by (simp add: orderMap_def)

lemma orderMap_None: "orderMap xs n = None \<longleftrightarrow> n \<notin> set xs"
  by (induction xs rule: rev_induct) (simp_all add: orderMap_Nil orderMap_snoc)

lemma orderMap_bound: "orderMap xs n = Some i \<Longrightarrow> i < length xs"
proof (induction xs arbitrary: i rule: rev_induct)
  case Nil
  then show ?case by (simp add: orderMap_Nil)
next
  case (snoc x xs)
  show ?case
  proof (cases "n = x")
    case True
    then show ?thesis using snoc.prems by (simp add: orderMap_snoc)
  next
    case False
    then have "orderMap xs n = Some i" using snoc.prems by (simp add: orderMap_snoc)
    then have "i < length xs" by (rule snoc.IH)
    then show ?thesis by simp
  qed
qed

lemma orderMap_inj: "orderMap xs n = Some i \<Longrightarrow> orderMap xs n' = Some i \<Longrightarrow> n = n'"
proof (induction xs arbitrary: i rule: rev_induct)
  case Nil
  then show ?case by (simp add: orderMap_Nil)
next
  case (snoc x xs)
  show ?case
  proof (cases "n = x")
    case nx: True
    show ?thesis
    proof (cases "n' = x")
      case True
      then show ?thesis using nx by simp
    next
      case False
      then have "orderMap xs n' = Some i" using snoc.prems(2) by (simp add: orderMap_snoc)
      then have "i < length xs" by (rule orderMap_bound)
      moreover have "i = length xs" using snoc.prems(1) nx by (simp add: orderMap_snoc)
      ultimately show ?thesis by simp
    qed
  next
    case nx: False
    then have a: "orderMap xs n = Some i" using snoc.prems(1) by (simp add: orderMap_snoc)
    show ?thesis
    proof (cases "n' = x")
      case True
      then have "i = length xs" using snoc.prems(2) by (simp add: orderMap_snoc)
      moreover have "i < length xs" using a by (rule orderMap_bound)
      ultimately show ?thesis by simp
    next
      case False
      then have "orderMap xs n' = Some i" using snoc.prems(2) by (simp add: orderMap_snoc)
      with a show ?thesis by (rule snoc.IH)
    qed
  qed
qed

lemma rankOf_named:
  assumes "n \<in> set xs"
  shows "\<exists>i. orderMap xs n = Some i \<and> rankOf xs n = int i \<and> i < length xs"
proof -
  from assms obtain i where i: "orderMap xs n = Some i"
    using orderMap_None [of xs n] by (cases "orderMap xs n") auto
  then show ?thesis using orderMap_bound [OF i] by (simp add: rankOf_def)
qed

lemma rankOf_unnamed: "n \<notin> set xs \<Longrightarrow> rankOf xs n = MAX_SAFE_INTEGER"
  using orderMap_None [of xs n] by (simp add: rankOf_def)

lemma rankOf_snoc:
  "rankOf (xs @ [x]) n = (if n = x then int (length xs) else rankOf xs n)"
  by (simp add: rankOf_def orderMap_snoc)

lemma rankOf_less: "n \<in> set xs \<Longrightarrow> rankOf xs n < int (length xs)"
  using rankOf_named [of n xs] by auto

lemma sorted_rank_remdups: "sorted (map (rankOf xs) (remdups xs))"
proof (induction xs rule: rev_induct)
  case Nil
  then show ?case by simp
next
  case (snoc x xs)
  have eq: "map (rankOf (xs @ [x])) (filter (\<lambda>y. y \<noteq> x) (remdups xs)) =
            map (rankOf xs) (filter (\<lambda>y. y \<noteq> x) (remdups xs))"
    by (rule map_cong) (auto simp: rankOf_snoc)
  have s: "sorted (map (rankOf xs) (filter (\<lambda>y. y \<noteq> x) (remdups xs)))"
    using snoc.IH by (rule sorted_filter)
  have b: "\<forall>y\<in>set (filter (\<lambda>y. y \<noteq> x) (remdups xs)). rankOf xs y \<le> int (length xs)"
    using rankOf_less [of _ xs] by fastforce
  show ?case
    unfolding remdups_snoc map_append eq
    using s b by (simp add: sorted_append rankOf_snoc)
qed

lemma rankOf_eq_iff:
  assumes "int (length xs) \<le> MAX_SAFE_INTEGER" and "n \<in> set xs"
  shows "rankOf xs n = rankOf xs n' \<longleftrightarrow> n = n'"
proof
  assume eq: "rankOf xs n = rankOf xs n'"
  from rankOf_named [OF assms(2)] obtain i where
    i: "orderMap xs n = Some i" "rankOf xs n = int i" "i < length xs" by blast
  have "n' \<in> set xs"
  proof (rule ccontr)
    assume "n' \<notin> set xs"
    then have "rankOf xs n' = MAX_SAFE_INTEGER" by (rule rankOf_unnamed)
    then show False using eq i assms(1) by simp
  qed
  from rankOf_named [OF this] obtain j where
    j: "orderMap xs n' = Some j" "rankOf xs n' = int j" by blast
  then have "i = j" using eq i by simp
  then show "n = n'" using orderMap_inj [of xs n i n'] i j by simp
next
  assume "n = n'" then show "rankOf xs n = rankOf xs n'" by simp
qed

lemma grouped_Cons: "grouped ps (d # ds) = filter (\<lambda>p. name p = d) ps @ grouped ps ds"
  by (simp add: grouped_def)

lemma grouped_Nil: "grouped ps [] = []"
  by (simp add: grouped_def)

lemma set_grouped: "set (grouped ps ds) = {p \<in> set ps. name p \<in> set ds}"
  by (induction ds) (auto simp: grouped_Cons grouped_Nil)

lemma filter_name_grouped:
  "distinct ds \<Longrightarrow>
   filter (\<lambda>p. name p = n) (grouped ps ds) = (if n \<in> set ds then filter (\<lambda>p. name p = n) ps else [])"
proof (induction ds)
  case Nil
  then show ?case by (simp add: grouped_Nil)
next
  case (Cons d ds)
  have "filter (\<lambda>p. name p = n) (filter (\<lambda>p. name p = d) ps) =
        (if n = d then filter (\<lambda>p. name p = n) ps else [])"
    by (induction ps) auto
  then show ?case using Cons by (auto simp: grouped_Cons)
qed

lemma mset_grouped:
  "distinct ds \<Longrightarrow> mset (grouped ps ds) = filter_mset (\<lambda>p. name p \<in> set ds) (mset ps)"
proof (induction ds)
  case Nil
  then show ?case by (simp add: grouped_Nil)
next
  case (Cons d ds)
  then have "mset (grouped ps (d # ds)) =
      filter_mset (\<lambda>p. name p = d) (mset ps) + filter_mset (\<lambda>p. name p \<in> set ds) (mset ps)"
    by (simp add: grouped_Cons)
  also have "\<dots> = filter_mset (\<lambda>p. name p \<in> set (d # ds)) (mset ps)"
    using Cons.prems by (auto simp: multiset_eq_iff)
  finally show ?case .
qed

lemma sorted_grouped:
  fixes r :: "string \<Rightarrow> int"
  assumes "sorted (map r ds)"
  shows "sorted (map (\<lambda>p. r (name p)) (grouped ps ds))"
  using assms
proof (induction ds)
  case Nil
  then show ?case by (simp add: grouped_Nil)
next
  case (Cons d ds)
  have same: "sorted (map (\<lambda>p. r (name p)) (filter (\<lambda>p. name p = d) ps))"
    by (induction ps) auto
  have rest: "sorted (map (\<lambda>p. r (name p)) (grouped ps ds))" using Cons by simp
  have le: "\<forall>x\<in>set (filter (\<lambda>p. name p = d) ps). \<forall>y\<in>set (grouped ps ds). r (name x) \<le> r (name y)"
    using Cons.prems by (auto simp: set_grouped)
  show ?case using same rest le by (simp add: grouped_Cons sorted_append)
qed



lemma mset_regrouped:
  "mset (grouped ps (remdups pref) @ filter (\<lambda>p. name p \<notin> set pref) ps) = mset ps"
proof -
  have "mset (grouped ps (remdups pref)) = filter_mset (\<lambda>p. name p \<in> set pref) (mset ps)"
    using mset_grouped [of "remdups pref" ps] by simp
  moreover have "mset (filter (\<lambda>p. name p \<notin> set pref) ps) =
                 filter_mset (\<lambda>p. \<not> name p \<in> set pref) (mset ps)"
    by simp
  ultimately show ?thesis
    using multiset_partition [of "mset ps" "\<lambda>p. name p \<in> set pref"] by simp
qed

lemma named_regrouped:
  assumes "n \<in> set pref"
  shows "filter (\<lambda>p. name p = n) (grouped ps (remdups pref) @ filter (\<lambda>p. name p \<notin> set pref) ps)
         = filter (\<lambda>p. name p = n) ps"
proof -
  have "filter (\<lambda>p. name p = n) (filter (\<lambda>p. name p \<notin> set pref) ps) = []"
    using assms by (induction ps) auto
  then show ?thesis using assms by (simp add: filter_name_grouped)
qed

lemma unnamed_regrouped:
  "filter (\<lambda>p. name p \<notin> set pref) (grouped ps (remdups pref) @ filter (\<lambda>p. name p \<notin> set pref) ps)
   = filter (\<lambda>p. name p \<notin> set pref) ps"
proof -
  have "\<forall>p\<in>set (grouped ps (remdups pref)). name p \<in> set pref"
    by (simp add: set_grouped)
  then have "filter (\<lambda>p. name p \<notin> set pref) (grouped ps (remdups pref)) = []"
    by (simp add: filter_empty_conv)
  then show ?thesis by simp
qed

lemma rank_same_named:
  assumes "int (length pref) \<le> MAX_SAFE_INTEGER" and "name k \<in> set pref"
  shows "filter (\<lambda>x. rankOf pref (name k) = rankOf pref (name x)) qs = filter (\<lambda>x. name x = name k) qs"
proof (rule filter_cong)
  show "qs = qs" by simp
next
  fix x
  show "(rankOf pref (name k) = rankOf pref (name x)) = (name x = name k)"
    using rankOf_eq_iff [OF assms, of "name x"] by auto
qed

lemma rank_same_unnamed:
  assumes "int (length pref) \<le> MAX_SAFE_INTEGER" and "name k \<notin> set pref"
  shows "filter (\<lambda>x. rankOf pref (name k) = rankOf pref (name x)) qs = filter (\<lambda>x. name x \<notin> set pref) qs"
proof (rule filter_cong)
  show "qs = qs" by simp
next
  fix x
  show "(rankOf pref (name k) = rankOf pref (name x)) = (name x \<notin> set pref)"
  proof (cases "name x \<in> set pref")
    case True
    have "rankOf pref (name x) \<noteq> rankOf pref (name k)"
      using rankOf_eq_iff [OF assms(1) True, of "name k"] assms(2) True by auto
    then show ?thesis using True by auto
  next
    case False
    then show ?thesis using assms(2) by (simp add: rankOf_unnamed)
  qed
qed

lemma sorted_regrouped:
  assumes "int (length pref) \<le> MAX_SAFE_INTEGER"
  shows "sorted (map (\<lambda>p. rankOf pref (name p))
           (grouped ps (remdups pref) @ filter (\<lambda>p. name p \<notin> set pref) ps))"
proof -
  have s1: "sorted (map (\<lambda>p. rankOf pref (name p)) (grouped ps (remdups pref)))"
    using sorted_rank_remdups by (rule sorted_grouped)
  have eq: "map (\<lambda>p. rankOf pref (name p)) (filter (\<lambda>p. name p \<notin> set pref) ps) =
        replicate (length (filter (\<lambda>p. name p \<notin> set pref) ps)) MAX_SAFE_INTEGER"
    by (induction ps) (simp_all add: rankOf_unnamed)
  have s2: "sorted (map (\<lambda>p. rankOf pref (name p)) (filter (\<lambda>p. name p \<notin> set pref) ps))"
    unfolding eq by (simp add: sorted_replicate)
  have s3: "rankOf pref (name x) \<le> rankOf pref (name y)"
    if "x \<in> set (grouped ps (remdups pref))" and "y \<in> set (filter (\<lambda>p. name p \<notin> set pref) ps)" for x y
  proof -
    have "name x \<in> set pref" using that(1) by (simp add: set_grouped)
    then have "rankOf pref (name x) < int (length pref)" by (rule rankOf_less)
    moreover have "rankOf pref (name y) = MAX_SAFE_INTEGER" using that(2) by (simp add: rankOf_unnamed)
    ultimately show ?thesis using assms by simp
  qed
  show ?thesis using s1 s2 s3 by (simp add: sorted_append)
qed

text \<open>
  Claim C8.  For every configuration and every preferred order (a JavaScript array, so shorter
  than \<open>2^32\<close>), the registry returns first the providers whose names occur in the preferred
  order, name by name in the order the preferred order gives the names (a name given twice
  counts at its last place), providers of one name in their default order, and then all
  providers whose names do not occur in it, in their default order.
\<close>

theorem preferred_order:
  assumes "length preferredOrder < 4294967296"
  shows "getAvailableProviders e preferredOrder =
     concat (map (\<lambda>n. filter (\<lambda>p. name p = n) (defaultProviders e)) (remdups preferredOrder)) @
     filter (\<lambda>p. name p \<notin> set preferredOrder) (defaultProviders e)"
proof (cases "preferredOrder = []")
  case True
  then show ?thesis by (simp add: getAvailableProviders_def)
next
  case False
  define ps where "ps = defaultProviders e"
  define ys where
    "ys = grouped ps (remdups preferredOrder) @ filter (\<lambda>p. name p \<notin> set preferredOrder) ps"
  have bound: "int (length preferredOrder) \<le> MAX_SAFE_INTEGER"
    using assms by (simp add: MAX_SAFE_INTEGER_def)
  have m: "mset ys = mset ps"
    unfolding ys_def by (rule mset_regrouped)
  have stable: "filter (\<lambda>x. rankOf preferredOrder (name k) = rankOf preferredOrder (name x)) ys =
                filter (\<lambda>x. rankOf preferredOrder (name k) = rankOf preferredOrder (name x)) ps" for k
  proof (cases "name k \<in> set preferredOrder")
    case True
    show ?thesis
      unfolding rank_same_named [OF bound True] ys_def
      using named_regrouped [OF True, of ps] by (simp add: eq_commute)
  next
    case False
    show ?thesis
      unfolding rank_same_unnamed [OF bound False] ys_def by (rule unnamed_regrouped)
  qed
  have s: "sorted (map (\<lambda>p. rankOf preferredOrder (name p)) ys)"
    unfolding ys_def using bound by (rule sorted_regrouped)
  have "sort_key (\<lambda>p. rankOf preferredOrder (name p)) ps = ys"
    using m stable s by (rule properties_for_sort_key)
  then have "getAvailableProviders e preferredOrder = ys"
    using False by (simp add: getAvailableProviders_def Let_def ps_def)
  then show ?thesis by (simp add: ys_def ps_def grouped_def)
qed

theorem preferred_order_witness:
  "length [''openai'', ''gemini''] < 4294967296 \<and>
   map name (getAvailableProviders exEnv []) = [''gemini'', ''groq'', ''openai''] \<and>
   map name (getAvailableProviders exEnv [''openai'', ''gemini'']) = [''openai'', ''gemini'', ''groq'']"
proof -
  have h: "length [''openai'', ''gemini''] < 4294967296" by simp
  have dp: "defaultProviders exEnv =
     [\<lparr>name = ''gemini'', pmodel = ''gemini-2.0-flash-exp'',
        pclient = Some (GeminiSdk ''AIzaSy-example''), apiKey = None\<rparr>,
      \<lparr>name = ''groq'', pmodel = ''llama-3.3-70b-versatile'',
        pclient = Some (GroqSdk ''gsk_example''), apiKey = None\<rparr>,
      \<lparr>name = ''openai'', pmodel = ''gpt-4o-mini'',
        pclient = Some (OpenAISdk ''sk-example''), apiKey = None\<rparr>]"
    by code_simp
  have d: "map name (defaultProviders exEnv) = [''gemini'', ''groq'', ''openai'']"
    by (simp add: dp)
  have d0: "map name (getAvailableProviders exEnv []) = [''gemini'', ''groq'', ''openai'']"
    using d by (simp add: getAvailableProviders_def)
  have v: "map name (concat (map (\<lambda>n. filter (\<lambda>p. name p = n) (defaultProviders exEnv))
            (remdups [''openai'', ''gemini''])) @
          filter (\<lambda>p. name p \<notin> set [''openai'', ''gemini'']) (defaultProviders exEnv))
        = [''openai'', ''gemini'', ''groq'']"
    by (simp add: dp)
  have e: "map name (getAvailableProviders exEnv [''openai'', ''gemini'']) = [''openai'', ''gemini'', ''groq'']"
    unfolding preferred_order [OF h, of exEnv] by (rule v)
  show ?thesis using h d0 e by blast
qed

section \<open>Transport adapters: a 2xx response without text\<close>

lemma fst_sentFirst [simp]: "fst (sentFirst req rest) = req # fst rest"
  by (simp add: sentFirst_def)

lemma snd_sentFirst [simp]: "snd (sentFirst req rest) = snd rest"
  by (simp add: sentFirst_def)

























section \<open>Transport adapters: the numeric parameters of a request\<close>

lemma openRouterFallbacks_sent:
  "req \<in> set (fst (openRouterFallbacks fetch i m messageArray t n fbs)) \<Longrightarrow>
   \<exists>fb. req = openRouterBody fb messageArray t n"
proof (induction fbs arbitrary: i)
  case Nil
  then show ?case by simp
next
  case (Cons fb fbs)
  then show ?case
    by (auto simp: Let_def split: if_splits httpOutcome.splits httpBody.splits)
qed

lemma callOpenRouter_sent:
  assumes "req \<in> set (fst (callOpenRouter e fetch messages systemPrompt opts))"
  shows "\<exists>fb. req = openRouterBody fb (messageArrayOf systemPrompt messages)
                 (callerTemperature opts) (callerMaxTokens opts)"
proof -
  define rm where "rm = requestedModelOf e opts"
  define ma where "ma = messageArrayOf systemPrompt messages"
  define fb where "fb = openRouterFallbacks fetch 1 rm ma (callerTemperature opts)
      (callerMaxTokens opts) (openRouterFallbackModels rm)"
  have "req = openRouterBody rm ma (callerTemperature opts) (callerMaxTokens opts) \<or>
        req \<in> set (fst fb)"
    using assms unfolding callOpenRouter_def Let_def rm_def [symmetric] ma_def [symmetric]
      callerTemperature_def [symmetric] callerMaxTokens_def [symmetric] fb_def [symmetric]
    by (auto split: option.splits if_splits sum.splits prod.splits)
  then show ?thesis
    using openRouterFallbacks_sent unfolding fb_def ma_def by blast
qed

lemma openRouterBody_clamped:
  "reqTemperature (openRouterBody fb messageArray t n) = max 0 (min 2 t) \<and>
   reqMaxTokens (openRouterBody fb messageArray t n) = max 1 (min 32000 n) \<and>
   0 \<le> reqTemperature (openRouterBody fb messageArray t n) \<and>
   reqTemperature (openRouterBody fb messageArray t n) \<le> 2 \<and>
   1 \<le> reqMaxTokens (openRouterBody fb messageArray t n) \<and>
   reqMaxTokens (openRouterBody fb messageArray t n) \<le> 32000"
  by (simp add: openRouterBody_def)

lemma hfLoop_sent:
  "req \<in> set (fst (hfLoop hfFetch i prompt opts lastError ms)) \<Longrightarrow>
   \<exists>m. req = hfBody m prompt opts"
proof (induction ms arbitrary: i lastError)
  case Nil
  then show ?case by simp
next
  case (Cons m ms)
  then show ?case
    by (auto simp: Let_def split: if_splits option.splits sum.splits)
qed

lemma callHuggingFace_sent:
  "req \<in> set (fst (callHuggingFace e hfFetch messages systemPrompt opts)) \<Longrightarrow>
   \<exists>m. req = hfBody m (hfPrompt systemPrompt messages) opts"
  using hfLoop_sent
  by (auto simp: callHuggingFace_def split: option.splits if_splits)

lemma groqLoop_sent:
  "req \<in> set (fst (groqLoop create i messageArray opts lastError ms)) \<Longrightarrow>
   \<exists>m. req = passThroughBody m messageArray opts"
proof (induction ms arbitrary: i lastError)
  case Nil
  then show ?case by simp
next
  case (Cons m ms)
  then show ?case
    by (auto simp: Let_def groqBody_def split: if_splits completion.splits)
qed

lemma callGroq_sent:
  "req \<in> set (fst (callGroq e create messages systemPrompt opts)) \<Longrightarrow>
   \<exists>m. req = passThroughBody m (messageArrayOf systemPrompt messages) opts"
  using groqLoop_sent
  by (auto simp: callGroq_def split: option.splits)

lemma callOpenAI_sent:
  "req \<in> set (fst (callOpenAI e create messages systemPrompt opts)) \<Longrightarrow>
   \<exists>m. req = passThroughBody m (messageArrayOf systemPrompt messages) opts"
  by (auto simp: callOpenAI_def Let_def openAIBody_def split: option.splits completion.splits)

lemma callPerplexity_sent:
  "req \<in> set (fst (callPerplexity e pfetch messages systemPrompt opts)) \<Longrightarrow>
   \<exists>m. req = passThroughBody m (messageArrayOf systemPrompt messages) opts"
  by (auto simp: callPerplexity_def Let_def perplexityBody_def
      split: option.splits if_splits httpOutcome.splits errorBody.splits httpBody.splits)

lemma passThroughBody_raw:
  "reqTemperature (passThroughBody m messageArray opts) = callerTemperature opts \<and>
   reqMaxTokens (passThroughBody m messageArray opts) = callerMaxTokens opts"
  by (simp add: passThroughBody_def callerTemperature_def callerMaxTokens_def)

lemma geminiFallbacks_sent:
  "req \<in> set (fst (geminiFallbacks generate i m fullPrompt fbs)) \<Longrightarrow>
   prTemperature req = None \<and> prMaxTokens req = None"
proof (induction fbs arbitrary: i)
  case Nil
  then show ?case by simp
next
  case (Cons fb fbs)
  then show ?case
    by (auto simp: Let_def geminiFallbackRequest_def split: if_splits generation.splits)
qed

lemma callGemini_sent:
  assumes "i < length (fst (callGemini e generate messages systemPrompt opts))"
  shows "prTemperature (fst (callGemini e generate messages systemPrompt opts) ! i) =
           (if i = 0 then Some (callerTemperature opts) else None) \<and>
         prMaxTokens (fst (callGemini e generate messages systemPrompt opts) ! i) =
           (if i = 0 then Some (callerMaxTokens opts) else None)"
proof -
  define m where "m = envOr e ''GEMINI_MODEL'' ''gemini-2.0-flash-exp''"
  define fp where "fp = fullPromptOf systemPrompt messages"
  define fb where "fb = geminiFallbacks generate 1 m fp geminiFallbackModels"
  define sent where "sent = fst (callGemini e generate messages systemPrompt opts)"
  have "sent = [] \<or> sent = [geminiRequest m fp opts] \<or> sent = geminiRequest m fp opts # fst fb"
    unfolding sent_def callGemini_def Let_def m_def [symmetric] fp_def [symmetric]
      fb_def [symmetric]
    by (auto split: option.splits if_splits sum.splits prod.splits generation.splits)
  then obtain rest where s: "sent = geminiRequest m fp opts # rest"
    and r: "set rest \<subseteq> set (fst fb)"
    using assms unfolding sent_def by auto
  have first: "prTemperature (geminiRequest m fp opts) = Some (callerTemperature opts) \<and>
      prMaxTokens (geminiRequest m fp opts) = Some (callerMaxTokens opts)"
    by (simp add: geminiRequest_def callerTemperature_def callerMaxTokens_def)
  show ?thesis
  proof (cases i)
    case 0
    then show ?thesis using s first unfolding sent_def by simp
  next
    case (Suc j)
    then have "j < length rest" using assms s unfolding sent_def by simp
    then have "rest ! j \<in> set (fst fb)" using r by auto
    then have "prTemperature (rest ! j) = None \<and> prMaxTokens (rest ! j) = None"
      unfolding fb_def by (rule geminiFallbacks_sent)
    then show ?thesis using s Suc unfolding sent_def by simp
  qed
qed

text \<open>
  Claim C7, as the code has it.  Every request the OpenRouter adapter sends, the first one
  and those for fallback models, carries the caller's temperature clamped into \<open>[0, 2]\<close> and
  the caller's token limit clamped into \<open>[1, 32000]\<close>.  Every request the Hugging Face
  adapter sends carries the caller's temperature unchanged and a token limit capped at 2000.
  Every request the Groq, OpenAI and Perplexity adapters send carries the caller's
  temperature and token limit unchanged, and so does the first request of the Gemini
  adapter; its requests for fallback models carry neither.  (An absent temperature counts as
  0.2 and an absent token limit as 4000, for Hugging Face as 2000.)
\<close>

theorem clamping_by_adapter:
  "(\<forall>req\<in>set (fst (callOpenRouter e fetch messages systemPrompt opts)).
      reqTemperature req = max 0 (min 2 (callerTemperature opts)) \<and>
      reqMaxTokens req = max 1 (min 32000 (callerMaxTokens opts)) \<and>
      0 \<le> reqTemperature req \<and> reqTemperature req \<le> 2 \<and>
      1 \<le> reqMaxTokens req \<and> reqMaxTokens req \<le> 32000) \<and>
   (\<forall>req\<in>set (fst (callHuggingFace e hfFetch messages systemPrompt opts)).
      prTemperature req = Some (callerTemperature opts) \<and>
      prMaxTokens req = Some (min (case maxTokens opts of None \<Rightarrow> 2000 | Some v \<Rightarrow> v) 2000)) \<and>
   (\<forall>req\<in>set (fst (callGroq e create messages systemPrompt opts)).
      reqTemperature req = callerTemperature opts \<and> reqMaxTokens req = callerMaxTokens opts) \<and>
   (\<forall>req\<in>set (fst (callOpenAI e create messages systemPrompt opts)).
      reqTemperature req = callerTemperature opts \<and> reqMaxTokens req = callerMaxTokens opts) \<and>
   (\<forall>req\<in>set (fst (callPerplexity e pfetch messages systemPrompt opts)).
      reqTemperature req = callerTemperature opts \<and> reqMaxTokens req = callerMaxTokens opts) \<and>
   (\<forall>i<length (fst (callGemini e generate messages systemPrompt opts)).
      prTemperature (fst (callGemini e generate messages systemPrompt opts) ! i) =
        (if i = 0 then Some (callerTemperature opts) else None) \<and>
      prMaxTokens (fst (callGemini e generate messages systemPrompt opts) ! i) =
        (if i = 0 then Some (callerMaxTokens opts) else None))"
proof (intro conjI ballI allI impI)
  fix req assume "req \<in> set (fst (callOpenRouter e fetch messages systemPrompt opts))"
  then obtain fb where r: "req = openRouterBody fb (messageArrayOf systemPrompt messages)
      (callerTemperature opts) (callerMaxTokens opts)"
    using callOpenRouter_sent by blast
  note c = openRouterBody_clamped [of fb "messageArrayOf systemPrompt messages"
      "callerTemperature opts" "callerMaxTokens opts"]
  show "reqTemperature req = max 0 (min 2 (callerTemperature opts))" using c r by simp
  show "reqMaxTokens req = max 1 (min 32000 (callerMaxTokens opts))" using c r by simp
  show "0 \<le> reqTemperature req" using c r by simp
  show "reqTemperature req \<le> 2" using c r by simp
  show "1 \<le> reqMaxTokens req" using c r by simp
  show "reqMaxTokens req \<le> 32000" using c r by simp
next
  fix req assume "req \<in> set (fst (callHuggingFace e hfFetch messages systemPrompt opts))"
  then obtain m where r: "req = hfBody m (hfPrompt systemPrompt messages) opts"
    using callHuggingFace_sent by blast
  show "prTemperature req = Some (callerTemperature opts)"
    using r by (simp add: hfBody_def callerTemperature_def)
  show "prMaxTokens req = Some (min (case maxTokens opts of None \<Rightarrow> 2000 | Some v \<Rightarrow> v) 2000)"
    using r by (simp add: hfBody_def)
next
  fix req assume "req \<in> set (fst (callGroq e create messages systemPrompt opts))"
  then obtain m where r: "req = passThroughBody m (messageArrayOf systemPrompt messages) opts"
    using callGroq_sent by blast
  show "reqTemperature req = callerTemperature opts" using r passThroughBody_raw by simp
  show "reqMaxTokens req = callerMaxTokens opts" using r passThroughBody_raw by simp
next
  fix req assume "req \<in> set (fst (callOpenAI e create messages systemPrompt opts))"
  then obtain m where r: "req = passThroughBody m (messageArrayOf systemPrompt messages) opts"
    using callOpenAI_sent by blast
  show "reqTemperature req = callerTemperature opts" using r passThroughBody_raw by simp
  show "reqMaxTokens req = callerMaxTokens opts" using r passThroughBody_raw by simp
next
  fix req assume "req \<in> set (fst (callPerplexity e pfetch messages systemPrompt opts))"
  then obtain m where r: "req = passThroughBody m (messageArrayOf systemPrompt messages) opts"
    using callPerplexity_sent by blast
  show "reqTemperature req = callerTemperature opts" using r passThroughBody_raw by simp
  show "reqMaxTokens req = callerMaxTokens opts" using r passThroughBody_raw by simp
next
  fix i assume i: "i < length (fst (callGemini e generate messages systemPrompt opts))"
  from callGemini_sent [OF i]
  show "prTemperature (fst (callGemini e generate messages systemPrompt opts) ! i) =
        (if i = 0 then Some (callerTemperature opts) else None)" by blast
  from callGemini_sent [OF i]
  show "prMaxTokens (fst (callGemini e generate messages systemPrompt opts) ! i) =
        (if i = 0 then Some (callerMaxTokens opts) else None)" by blast
qed

theorem clamping_by_adapter_witness:
  "fst (callOpenRouter exRouterEnv exFallbackFetch [] None exCallOptions) =
     [\<lparr>reqModel = ''google/gemini-2.0-flash-exp'', reqMessages = [],
       reqTemperature = 2, reqMaxTokens = 1\<rparr>,
      \<lparr>reqModel = ''google/gemini-2.0-flash'', reqMessages = [],
       reqTemperature = 2, reqMaxTokens = 1\<rparr>,
      \<lparr>reqModel = ''google/gemini-pro'', reqMessages = [],
       reqTemperature = 2, reqMaxTokens = 1\<rparr>] \<and>
   callerTemperature exCallOptions = 5 \<and> callerMaxTokens exCallOptions = - 7 \<and>
   reqTemperature (hd (fst (callOpenRouter exRouterEnv exFallbackFetch [] None exCallOptions))) \<le> 2 \<and>
   1 \<le> reqMaxTokens (hd (fst (callOpenRouter exRouterEnv exFallbackFetch [] None exCallOptions))) \<and>
   length (fst (callGemini exEnv exFallbackGeneration [] None exCallOptions)) = 3 \<and>
   prTemperature (fst (callGemini exEnv exFallbackGeneration [] None exCallOptions) ! 0) = Some 5 \<and>
   prTemperature (fst (callGemini exEnv exFallbackGeneration [] None exCallOptions) ! 1) = None"
proof -
  have s: "fst (callOpenRouter exRouterEnv exFallbackFetch [] None exCallOptions) =
     [\<lparr>reqModel = ''google/gemini-2.0-flash-exp'', reqMessages = [],
       reqTemperature = 2, reqMaxTokens = 1\<rparr>,
      \<lparr>reqModel = ''google/gemini-2.0-flash'', reqMessages = [],
       reqTemperature = 2, reqMaxTokens = 1\<rparr>,
      \<lparr>reqModel = ''google/gemini-pro'', reqMessages = [],
       reqTemperature = 2, reqMaxTokens = 1\<rparr>]"
    by code_simp
  have t: "callerTemperature exCallOptions = 5" "callerMaxTokens exCallOptions = - 7"
    by (simp_all add: callerTemperature_def callerMaxTokens_def exCallOptions_def)
  have l: "length (fst (callGemini exEnv exFallbackGeneration [] None exCallOptions)) = 3"
    by code_simp
  have m: "hd (fst (callOpenRouter exRouterEnv exFallbackFetch [] None exCallOptions)) \<in>
      set (fst (callOpenRouter exRouterEnv exFallbackFetch [] None exCallOptions))"
    by (simp add: s)
  note th = clamping_by_adapter [where e = exRouterEnv and fetch = exFallbackFetch
      and messages = "[]" and systemPrompt = None and opts = exCallOptions]
  have r1: "reqTemperature (hd (fst (callOpenRouter exRouterEnv exFallbackFetch [] None exCallOptions))) \<le> 2 \<and>
      1 \<le> reqMaxTokens (hd (fst (callOpenRouter exRouterEnv exFallbackFetch [] None exCallOptions)))"
    using th m by blast
  note tg = clamping_by_adapter [where e = exEnv and generate = exFallbackGeneration
      and messages = "[]" and systemPrompt = None and opts = exCallOptions]
  have r2: "prTemperature (fst (callGemini exEnv exFallbackGeneration [] None exCallOptions) ! 0) =
      Some (callerTemperature exCallOptions)"
    using tg l by simp
  have r3: "prTemperature (fst (callGemini exEnv exFallbackGeneration [] None exCallOptions) ! 1) = None"
    using tg l by simp
  show ?thesis using s t l r1 r2 r3 by simp
qed

text \<open>
  Claim C7 as stated fails for the Groq adapter: called with temperature 5 and a token limit
  of \<open>-7\<close>, the request it sends carries exactly these values.
\<close>

theorem groq_sends_unclamped:
  "fst (callGroq exEnv exBlankCompletion [] None exCallOptions) =
     [\<lparr>reqModel = ''llama-3.3-70b-versatile'', reqMessages = [],
       reqTemperature = 5, reqMaxTokens = - 7\<rparr>]"
  by code_simp

section \<open>Lab-value extractor: the two lines of the specification\<close>

lemma hemoglobin_clean: "cleanLines hemoglobinLine = [hemoglobinLine]"
  by code_simp

lemma hemoglobin_parts: "lineParts hemoglobinLine = [hemoglobinLine]"
  by code_simp

lemma hemoglobin_line: "extractTestDataFromLine hemoglobinLine [] [] = None"
  by code_simp

lemma hemoglobin_unit: "takeUnit ''Hemoglobin'' = (''Hemoglobin'', [])"
  by code_simp

lemma hemoglobin_row: "parseAbnormalRow hemoglobinLine [] = None"
  by code_simp

lemma hemoglobin_none: "extractAbnormalFromText hemoglobinLine = []"
  by code_simp

lemma glucose_none: "extractAbnormalFromText glucoseLine = []"
  by code_simp

text \<open>
  Claim C3, evaluated.  The line \<open>Glucose 95 mg/dL 70-100 Normal\<close> yields no finding, as
  the claim says.  The line \<open>Hemoglobin 9.2 g/dL 12.0-15.5 Low\<close> yields no finding either,
  where the claim expects one.  White space is collapsed before the line is split, so the
  line is a single part, which is taken for the reference range, and the line-local
  strategy finds neither test nor value; the buffer strategy cuts the row before the value
  and then takes the test name for the unit, which leaves no test name.
\<close>

theorem extractor_on_spec_lines:
  "extractAbnormalFromText hemoglobinLine = [] \<and>
   extractAbnormalFromText glucoseLine = [] \<and>
   lineParts hemoglobinLine = [hemoglobinLine] \<and>
   extractTestDataFromLine hemoglobinLine [] [] = None \<and>
   takeUnit ''Hemoglobin'' = (''Hemoglobin'', []) \<and>
   parseAbnormalRow hemoglobinLine [] = None"
  using hemoglobin_none glucose_none hemoglobin_parts hemoglobin_line hemoglobin_unit hemoglobin_row
  by blast

section \<open>Findings are emitted with a test and a value\<close>

lemma dropWhile_all: "dropWhile P xs = [] \<longleftrightarrow> (\<forall>x\<in>set xs. P x)"
  by (induction xs) auto

lemma all_dropWhile: "(\<forall>c\<in>set (dropWhile P xs). P c) \<longleftrightarrow> (\<forall>c\<in>set xs. P c)"
  by (induction xs) auto

lemma trim_empty_iff: "trim s = [] \<longleftrightarrow> (\<forall>c\<in>set s. isSpace c)"
proof -
  have "trim s = [] \<longleftrightarrow> dropWhile isSpace (rev (dropWhile isSpace s)) = []"
    by (simp add: trim_def trimEnd_def trimStart_def)
  also have "\<dots> \<longleftrightarrow> (\<forall>c\<in>set (rev (dropWhile isSpace s)). isSpace c)"
    by (rule dropWhile_all)
  also have "\<dots> \<longleftrightarrow> (\<forall>c\<in>set (dropWhile isSpace s). isSpace c)"
    by (simp only: set_rev)
  also have "\<dots> \<longleftrightarrow> (\<forall>c\<in>set s. isSpace c)"
    by (rule all_dropWhile)
  finally show ?thesis .
qed

lemma trim_trim_nonempty: "trim q \<noteq> [] \<Longrightarrow> trim (trim q) \<noteq> []"
proof -
  assume n: "trim q \<noteq> []"
  define t where "t = rev (dropWhile isSpace q)"
  have tq: "trim q = rev (dropWhile isSpace t)" by (simp add: trim_def trimEnd_def trimStart_def t_def)
  then have ne: "dropWhile isSpace t \<noteq> []" using n by simp
  then have "\<not> isSpace (hd (dropWhile isSpace t))" by (rule hd_dropWhile)
  moreover have "hd (dropWhile isSpace t) \<in> set (trim q)" using ne tq by simp
  ultimately show ?thesis using trim_empty_iff [of "trim q"] by blast
qed

lemma lineParts_trimmed: "p \<in> set (lineParts line) \<Longrightarrow> trim p \<noteq> []"
  by (auto simp: lineParts_def trim_trim_nonempty)

lemma classifyPart_ok:
  assumes "fieldsOk fs" and "trim part \<noteq> []"
  shows "fieldsOk (classifyPart flagWord part fs)"
proof -
  have "trim (lfTest fs @ (if lfTest fs \<noteq> [] then '' '' else []) @ part) \<noteq> []"
    using assms(2) by (auto simp: trim_empty_iff)
  then show ?thesis
    using assms by (auto simp: classifyPart_def fieldsOk_def split: option.splits)
qed

lemma fold_classifyPart_ok:
  "fieldsOk fs \<Longrightarrow> \<forall>p\<in>set ps. trim p \<noteq> [] \<Longrightarrow> fieldsOk (fold (classifyPart flagWord) ps fs)"
  by (induction ps arbitrary: fs) (simp_all add: classifyPart_ok)

lemma extractTestDataFromLine_nonempty:
  assumes "extractTestDataFromLine line nextLine prevLine = Some f"
  shows "test f \<noteq> [] \<and> val f \<noteq> []"
proof -
  from assms obtain flagMatch where fm: "regexMatch True FLAG_REGEX line = Some flagMatch"
    by (cases "regexMatch True FLAG_REGEX line") (simp_all add: extractTestDataFromLine_def)
  define fs where "fs = fold (classifyPart (groupText flagMatch 1)) (lineParts line)
              \<lparr>lfTest = [], lfValue = [], lfUnit = [], lfRange = []\<rparr>"
  have ok0: "fieldsOk \<lparr>lfTest = [], lfValue = [], lfUnit = [], lfRange = []\<rparr>"
    by (simp add: fieldsOk_def)
  have parts: "\<forall>p\<in>set (lineParts line). trim p \<noteq> []"
    using lineParts_trimmed by blast
  have ok: "fieldsOk fs"
    unfolding fs_def using ok0 parts by (rule fold_classifyPart_ok)
  have res: "lfTest fs \<noteq> [] \<and> lfValue fs \<noteq> [] \<and> test f = trim (lfTest fs) \<and> val f = trim (lfValue fs)"
    using assms fm
    by (auto simp: extractTestDataFromLine_def Let_def fs_def split: if_splits)
  then show ?thesis using ok by (auto simp: fieldsOk_def)
qed

lemma parseAbnormalRow_nonempty:
  assumes "parseAbnormalRow row fallbackTest = Some f"
  shows "test f \<noteq> [] \<and> val f \<noteq> []"
  using assms
  by (auto simp: parseAbnormalRow_def Let_def split: option.splits if_splits)

lemma lineFindings_nonempty:
  "\<forall>f\<in>set (lineFindings prevLine ls). test f \<noteq> [] \<and> val f \<noteq> []"
proof (induction ls arbitrary: prevLine)
  case Nil
  then show ?case by simp
next
  case (Cons l ls)
  show ?case
    using Cons.IH [of l] extractTestDataFromLine_nonempty
    by (auto split: option.splits if_splits)
qed

lemma addRowFindings_nonempty:
  "\<forall>f\<in>set fs. test f \<noteq> [] \<and> val f \<noteq> [] \<Longrightarrow>
   \<forall>f\<in>set (addRowFindings lastTest rows fs). test f \<noteq> [] \<and> val f \<noteq> []"
proof (induction rows arbitrary: lastTest fs)
  case Nil
  then show ?case by simp
next
  case (Cons r rows)
  show ?case
  proof (cases "parseAbnormalRow r lastTest")
    case None
    then show ?thesis using Cons.IH [OF Cons.prems] by simp
  next
    case (Some parsed)
    have p: "test parsed \<noteq> [] \<and> val parsed \<noteq> []" using Some by (rule parseAbnormalRow_nonempty)
    have "\<forall>f\<in>set (if \<exists>f\<in>set fs. sameTest f parsed then fs else fs @ [parsed]).
            test f \<noteq> [] \<and> val f \<noteq> []"
      using Cons.prems p by auto
    from Cons.IH [OF this] show ?thesis using Some by simp
  qed
qed

lemma hemoglobin_row_findings:
  "extractAbnormalFromText hemoglobinRow =
     [\<lparr>test = ''Hemoglobin'', val = ''9.2'', unit = ''g/dL'', referenceRange = ''12.0 - 15.5'',
       flag = ''Low'', severity = ''low'',
       interpretationText = ''Low value (reference 12.0 - 15.5)''\<rparr>,
      \<lparr>test = ''Hemoglobin |'', val = ''9.2'', unit = [], referenceRange = ''12.0 - 15.5'',
       flag = ''Low'', severity = ''low'',
       interpretationText = ''Low value (reference 12.0 - 15.5)''\<rparr>]"
  by code_simp

text \<open>
  Claim C9, as the code has it.  Every finding the text extractor emits has a non-empty test
  and a non-empty value.  (The findings normalised from the AI's \<^verbatim>\<open>abnormal_values\<close> are
  emitted as they come, with the empty string for a field that is missing.)
\<close>

theorem extracted_findings_nonempty:
  "\<forall>f\<in>set (extractAbnormalFromText text). test f \<noteq> [] \<and> val f \<noteq> []"
  unfolding extractAbnormalFromText_def Let_def
  using lineFindings_nonempty by (rule addRowFindings_nonempty)

theorem extracted_findings_nonempty_witness:
  "extractAbnormalFromText hemoglobinRow \<noteq> [] \<and>
   test (hd (extractAbnormalFromText hemoglobinRow)) \<noteq> [] \<and>
   val (hd (extractAbnormalFromText hemoglobinRow)) \<noteq> []"
proof -
  have ne: "extractAbnormalFromText hemoglobinRow \<noteq> []"
    by (simp add: hemoglobin_row_findings)
  then have "hd (extractAbnormalFromText hemoglobinRow) \<in> set (extractAbnormalFromText hemoglobinRow)"
    by simp
  then show ?thesis using extracted_findings_nonempty [of hemoglobinRow] ne by blast
qed

text \<open>
  Claim C9 as stated fails for the findings that come from the AI: an entry of
  \<^verbatim>\<open>abnormal_values\<close> without a value becomes a finding whose value is empty, and it stays
  in the findings of the report.
\<close>

theorem ai_finding_without_value:
  "reportFindings (Some (JArr [JObj [(''test'', JStr ''Hemoglobin'')]])) hemoglobinLine =
     Inr [\<lparr>test = ''Hemoglobin'', val = [], unit = [], referenceRange = [], flag = [],
           severity = [], interpretationText = []\<rparr>]"
  by (simp add: reportFindings_def normalizeAbnormalValues_def normalizeAbnormal_def
      firstField_def textField_def valueField_def obj_get_def mergeFindings_def hemoglobin_none)

section \<open>Merging the findings of the AI with those extracted from the text\<close>




lemma strip_test: "stripRange f = stripRange g \<Longrightarrow> test f = test g"
proof -
  assume "stripRange f = stripRange g"
  then have "test (stripRange f) = test (stripRange g)" by simp
  then show ?thesis by (simp add: stripRange_def)
qed































end
